theory Spec2Isabelle
  imports Main
begin

section \<open>Outcomes of a call\<close>

text \<open>
  A call of a member function either returns, or leaves by an exception (the object is
  still there afterwards and can be observed), or stops the program: a failed
  \<^verbatim>\<open>assert\<close> (the build with assertions enabled is modelled), \<^verbatim>\<open>std::terminate\<close> when
  an exception meets a \<^verbatim>\<open>noexcept\<close> boundary, or undefined behaviour (a slot outside
  the block, an object read in raw storage, an object destroyed that is not there).
\<close>

datatype exn = bad_alloc | T_exception

datatype ('s, 'r) outcome =
    Return 's 'r
  | Throw exn 's
  | AssertionFailed
  | Terminated
  | Undefined

text \<open>\<^verbatim>\<open>try { m } catch (...) { g }\<close> followed by \<open>f\<close>; a stopped program stays stopped.\<close>

fun try_catch ::
  "('s, 'r) outcome \<Rightarrow> ('s \<Rightarrow> 'r \<Rightarrow> ('t, 'q) outcome) \<Rightarrow> (exn \<Rightarrow> 's \<Rightarrow> ('t, 'q) outcome)
     \<Rightarrow> ('t, 'q) outcome" where
  "try_catch (Return s r) f g = f s r"
| "try_catch (Throw e s) f g = g e s"
| "try_catch AssertionFailed f g = AssertionFailed"
| "try_catch Terminated f g = Terminated"
| "try_catch Undefined f g = Undefined"

section \<open>The element type\<close>

text \<open>
  The template parameter \<^verbatim>\<open>T\<close>: its special member functions and the three type traits
  the container asks for. A constructor that throws constructs nothing (\<open>None\<close>); a
  move reports the state it leaves its source in; an assignment reports the state it
  leaves its target in and whether it completed.
\<close>

record 'a elem_type =
  default_ctor :: "'a option"
  copy_ctor :: "'a \<Rightarrow> 'a option"
  move_ctor :: "'a \<Rightarrow> 'a \<times> 'a option"
  copy_assign :: "'a \<Rightarrow> 'a \<Rightarrow> 'a \<times> bool"
  move_assign :: "'a \<Rightarrow> 'a \<Rightarrow> ('a \<times> 'a) \<times> bool"
  is_nothrow_move_constructible_v :: bool
  is_copy_constructible_v :: bool
  is_nothrow_move_assignable_v :: bool

section \<open>Raw storage\<close>

text \<open>
  A block of raw storage is the list of its slots: \<open>None\<close> is a raw slot, \<open>Some x\<close> a slot
  holding the live object \<open>x\<close>. The null pointer is the block with no slot. A pointer into
  a block is the block together with an offset. Counts of type \<^verbatim>\<open>size_t\<close> are natural
  numbers: a size or capacity of a vector is the slot count of a block \<^verbatim>\<open>operator new\<close> has
  handed out, so \<^verbatim>\<open>size_ * 2\<close> does not wrap. Requests of so many slots that the product
  \<^verbatim>\<open>n * sizeof(T)\<close> in \<open>Allocate\<close> would wrap are outside the model.
\<close>

type_synonym 'a block = "'a option list"

definition live_at :: "'a block \<Rightarrow> nat \<Rightarrow> bool" where
  "live_at b i = (i < length b \<and> b ! i \<noteq> None)"

definition raw_at :: "'a block \<Rightarrow> nat \<Rightarrow> bool" where
  "raw_at b i = (i < length b \<and> b ! i = None)"

text \<open>
  The free store: which requests \<^verbatim>\<open>operator new\<close> satisfies, how many blocks are handed
  out and not given back, and how many objects were still alive in a block when it was
  given back (their destructors never run).
\<close>

record heap =
  new_ok :: "nat \<Rightarrow> bool"
  blocks :: nat
  lost :: nat

definition Allocate :: "nat \<Rightarrow> heap \<Rightarrow> (heap, 'a block) outcome" where
  "Allocate n h =
     (if n \<noteq> 0
      then (if new_ok h n then Return (h\<lparr>blocks := blocks h + 1\<rparr>) (replicate n None)
            else Throw bad_alloc h)
      else Return h [])"

definition Deallocate :: "'a block \<Rightarrow> heap \<Rightarrow> heap" where
  "Deallocate buf h =
     (if buf = [] then h
      else h\<lparr>blocks := blocks h - 1,
              lost := lost h + length (filter (\<lambda>s. s \<noteq> None) buf)\<rparr>)"

record 'a RawMemory =
  buffer_' :: "'a block"
  capacity_' :: nat

text \<open>\<^verbatim>\<open>RawMemory() = default\<close>\<close>

definition RawMemory_default :: "'a RawMemory" where
  "RawMemory_default = \<lparr>buffer_' = [], capacity_' = 0\<rparr>"

text \<open>\<^verbatim>\<open>explicit RawMemory(size_t capacity)\<close>\<close>

definition RawMemory_sized :: "nat \<Rightarrow> heap \<Rightarrow> (heap, 'a RawMemory) outcome" where
  "RawMemory_sized capacity h =
     try_catch (Allocate capacity h)
       (\<lambda>h' buf. Return h' \<lparr>buffer_' = buf, capacity_' = capacity\<rparr>)
       Throw"

text \<open>\<^verbatim>\<open>RawMemory(RawMemory &&other) noexcept\<close>: the new object and \<open>other\<close> afterwards.\<close>

definition RawMemory_move :: "'a RawMemory \<Rightarrow> 'a RawMemory \<times> 'a RawMemory" where
  "RawMemory_move other =
     (\<lparr>buffer_' = buffer_' other, capacity_' = capacity_' other\<rparr>,
      other\<lparr>buffer_' := [], capacity_' := 0\<rparr>)"

text \<open>
  \<^verbatim>\<open>RawMemory &operator=(RawMemory &&rhs) noexcept\<close> on two different objects (the container
  only ever assigns from a temporary): \<open>this\<close> and \<open>rhs\<close> afterwards. The block \<open>this\<close>
  held before is overwritten, not deallocated.
\<close>

definition RawMemory_move_assign ::
  "'a RawMemory \<Rightarrow> 'a RawMemory \<Rightarrow> 'a RawMemory \<times> 'a RawMemory" where
  "RawMemory_move_assign this rhs =
     (this\<lparr>buffer_' := buffer_' rhs, capacity_' := capacity_' rhs\<rparr>,
      rhs\<lparr>buffer_' := [], capacity_' := 0\<rparr>)"

text \<open>\<^verbatim>\<open>~RawMemory()\<close>\<close>

definition RawMemory_dtor :: "'a RawMemory \<Rightarrow> heap \<Rightarrow> heap" where
  "RawMemory_dtor m h = Deallocate (buffer_' m) h"

definition RawMemory_Swap :: "'a RawMemory \<Rightarrow> 'a RawMemory \<Rightarrow> 'a RawMemory \<times> 'a RawMemory" where
  "RawMemory_Swap this other =
     (this\<lparr>buffer_' := buffer_' other, capacity_' := capacity_' other\<rparr>,
      other\<lparr>buffer_' := buffer_' this, capacity_' := capacity_' this\<rparr>)"

definition GetAddress :: "'a RawMemory \<Rightarrow> 'a block" where
  "GetAddress m = buffer_' m"

text \<open>\<^verbatim>\<open>T &operator[](size_t index) noexcept\<close>: the object the returned reference denotes.\<close>

definition RawMemory_at :: "'a RawMemory \<Rightarrow> nat \<Rightarrow> ('a RawMemory, 'a) outcome" where
  "RawMemory_at m index =
     (if \<not> index < capacity_' m then AssertionFailed
      else if \<not> live_at (buffer_' m) index then Undefined
      else Return m (the (buffer_' m ! index)))"

text \<open>
  \<^verbatim>\<open>std::exchange(obj, RawMemory<T>{})\<close> and \<^verbatim>\<open>std::swap(a, b)\<close> on \<^verbatim>\<open>RawMemory\<close>, through its
  move constructor and move assignment; the temporaries are empty when they die.
\<close>

definition exchange_RawMemory ::
  "'a RawMemory \<Rightarrow> 'a RawMemory \<Rightarrow> 'a RawMemory \<times> 'a RawMemory" where
  "exchange_RawMemory obj new_value =
     (let (old_value, obj1) = RawMemory_move obj;
          (obj2, new_value1) = RawMemory_move_assign obj1 new_value
      in (old_value, obj2))"

definition swap_RawMemory :: "'a RawMemory \<Rightarrow> 'a RawMemory \<Rightarrow> 'a RawMemory \<times> 'a RawMemory" where
  "swap_RawMemory a b =
     (let (tmp, a1) = RawMemory_move a;
          (a2, b1) = RawMemory_move_assign a1 b;
          (b2, tmp1) = RawMemory_move_assign b1 tmp
      in (a2, b2))"

section \<open>Calls into the element type and the standard algorithms\<close>

text \<open>A move declared \<^verbatim>\<open>noexcept\<close> that throws ends in \<^verbatim>\<open>std::terminate\<close>.\<close>

definition call_move_ctor :: "'a elem_type \<Rightarrow> 'a \<Rightarrow> ('a, 'a) outcome" where
  "call_move_ctor T x =
     (case move_ctor T x of
        (x', Some y) \<Rightarrow> Return x' y
      | (x', None) \<Rightarrow>
          if is_nothrow_move_constructible_v T then Terminated else Throw T_exception x')"

definition call_move_assign :: "'a elem_type \<Rightarrow> 'a \<Rightarrow> 'a \<Rightarrow> ('a \<times> 'a, unit) outcome" where
  "call_move_assign T d s =
     (case move_assign T d s of
        (ds, True) \<Rightarrow> Return ds ()
      | (ds, False) \<Rightarrow>
          if is_nothrow_move_assignable_v T then Terminated else Throw T_exception ds)"

definition destroy_at :: "'a block \<Rightarrow> nat \<Rightarrow> 'a block option" where
  "destroy_at b i = (if live_at b i then Some (b[i := None]) else None)"

fun destroy_n :: "'a block \<Rightarrow> nat \<Rightarrow> nat \<Rightarrow> 'a block option" where
  "destroy_n b d 0 = Some b"
| "destroy_n b d (Suc n) =
     (if \<not> live_at b d then None else destroy_n (b[d := None]) (Suc d) n)"

text \<open>
  The \<^verbatim>\<open>uninitialized_\<close> algorithms construct into raw slots \<open>d, d + 1, ...\<close>; when a
  constructor throws they destroy what they have constructed and rethrow.
\<close>

fun uninitialized_value_construct_n ::
  "'a elem_type \<Rightarrow> 'a block \<Rightarrow> nat \<Rightarrow> nat \<Rightarrow> ('a block, unit) outcome" where
  "uninitialized_value_construct_n T dst d 0 = Return dst ()"
| "uninitialized_value_construct_n T dst d (Suc n) =
     (if \<not> raw_at dst d then Undefined
      else case default_ctor T of
        None \<Rightarrow> Throw T_exception dst
      | Some y \<Rightarrow>
          try_catch (uninitialized_value_construct_n T (dst[d := Some y]) (Suc d) n)
            Return
            (\<lambda>e dst'. Throw e (dst'[d := None])))"

fun uninitialized_copy_n ::
  "'a elem_type \<Rightarrow> 'a block \<Rightarrow> nat \<Rightarrow> nat \<Rightarrow> 'a block \<Rightarrow> nat \<Rightarrow> ('a block, unit) outcome" where
  "uninitialized_copy_n T src s 0 dst d = Return dst ()"
| "uninitialized_copy_n T src s (Suc n) dst d =
     (if \<not> live_at src s \<or> \<not> raw_at dst d then Undefined
      else case copy_ctor T (the (src ! s)) of
        None \<Rightarrow> Throw T_exception dst
      | Some y \<Rightarrow>
          try_catch (uninitialized_copy_n T src (Suc s) n (dst[d := Some y]) (Suc d))
            Return
            (\<lambda>e dst'. Throw e (dst'[d := None])))"

text \<open>Moving changes the source block as well: the state is the pair of both blocks.\<close>

fun uninitialized_move_n ::
  "'a elem_type \<Rightarrow> 'a block \<Rightarrow> nat \<Rightarrow> nat \<Rightarrow> 'a block \<Rightarrow> nat
     \<Rightarrow> ('a block \<times> 'a block, unit) outcome" where
  "uninitialized_move_n T src s 0 dst d = Return (src, dst) ()"
| "uninitialized_move_n T src s (Suc n) dst d =
     (if \<not> live_at src s \<or> \<not> raw_at dst d then Undefined
      else try_catch (call_move_ctor T (the (src ! s)))
        (\<lambda>x' y.
           try_catch
             (uninitialized_move_n T (src[s := Some x']) (Suc s) n (dst[d := Some y]) (Suc d))
             Return
             (\<lambda>e (src', dst'). Throw e (src', dst'[d := None])))
        (\<lambda>e x'. Throw e (src[s := Some x'], dst)))"

text \<open>\<^verbatim>\<open>std::copy_n\<close>: copy assignment onto live objects, no clean-up when one throws.\<close>

fun copy_n ::
  "'a elem_type \<Rightarrow> 'a block \<Rightarrow> nat \<Rightarrow> nat \<Rightarrow> 'a block \<Rightarrow> nat \<Rightarrow> ('a block, unit) outcome" where
  "copy_n T src s 0 dst d = Return dst ()"
| "copy_n T src s (Suc n) dst d =
     (if \<not> live_at src s \<or> \<not> live_at dst d then Undefined
      else case copy_assign T (the (dst ! d)) (the (src ! s)) of
        (z, False) \<Rightarrow> Throw T_exception (dst[d := Some z])
      | (z, True) \<Rightarrow> copy_n T src (Suc s) n (dst[d := Some z]) (Suc d))"

text \<open>
  \<^verbatim>\<open>std::move(first, last, d_first)\<close> and \<^verbatim>\<open>std::move_backward(first, last, d_last)\<close> inside
  one block: move assignment, front to back and back to front.
\<close>

fun move_n :: "'a elem_type \<Rightarrow> 'a block \<Rightarrow> nat \<Rightarrow> nat \<Rightarrow> nat \<Rightarrow> ('a block, unit) outcome" where
  "move_n T b first 0 d_first = Return b ()"
| "move_n T b first (Suc n) d_first =
     (if \<not> live_at b first \<or> \<not> live_at b d_first then Undefined
      else try_catch (call_move_assign T (the (b ! d_first)) (the (b ! first)))
        (\<lambda>(d', s') u. move_n T (b[d_first := Some d', first := Some s']) (Suc first) n (Suc d_first))
        (\<lambda>e (d', s'). Throw e (b[d_first := Some d', first := Some s'])))"

definition std_move ::
  "'a elem_type \<Rightarrow> 'a block \<Rightarrow> nat \<Rightarrow> nat \<Rightarrow> nat \<Rightarrow> ('a block, unit) outcome" where
  "std_move T b first last' d_first =
     (if last' < first then Undefined else move_n T b first (last' - first) d_first)"

fun move_backward_n ::
  "'a elem_type \<Rightarrow> 'a block \<Rightarrow> nat \<Rightarrow> nat \<Rightarrow> nat \<Rightarrow> ('a block, unit) outcome" where
  "move_backward_n T b 0 last' d_last = Return b ()"
| "move_backward_n T b (Suc n) last' d_last =
     (if last' = 0 \<or> d_last = 0 \<or> \<not> live_at b (last' - 1) \<or> \<not> live_at b (d_last - 1)
      then Undefined
      else try_catch (call_move_assign T (the (b ! (d_last - 1))) (the (b ! (last' - 1))))
        (\<lambda>(d', s') u.
           move_backward_n T (b[d_last - 1 := Some d', last' - 1 := Some s']) n
             (last' - 1) (d_last - 1))
        (\<lambda>e (d', s'). Throw e (b[d_last - 1 := Some d', last' - 1 := Some s'])))"

definition move_backward ::
  "'a elem_type \<Rightarrow> 'a block \<Rightarrow> nat \<Rightarrow> nat \<Rightarrow> nat \<Rightarrow> ('a block, unit) outcome" where
  "move_backward T b first last' d_last =
     (if last' < first then Undefined else move_backward_n T b (last' - first) last' d_last)"

section \<open>Vector\<close>

record 'a Vector =
  data_' :: "'a RawMemory"
  size_' :: nat

definition Capacity :: "'a Vector \<Rightarrow> nat" where
  "Capacity v = capacity_' (data_' v)"

definition Size :: "'a Vector \<Rightarrow> nat" where
  "Size v = size_' v"

text \<open>\<^verbatim>\<open>begin()\<close>: the block the vector's pointer addresses; \<open>set_buffer\<close> writes through it.\<close>

definition Vector_begin :: "'a Vector \<Rightarrow> 'a block" where
  "Vector_begin v = GetAddress (data_' v)"

definition set_buffer :: "'a Vector \<Rightarrow> 'a block \<Rightarrow> 'a Vector" where
  "set_buffer v b = v\<lparr>data_' := (data_' v)\<lparr>buffer_' := b\<rparr>\<rparr>"

text \<open>\<^verbatim>\<open>InitializeRawMemory(source_start, count, dest_start)\<close>\<close>

definition InitializeRawMemory ::
  "'a elem_type \<Rightarrow> 'a block \<Rightarrow> nat \<Rightarrow> nat \<Rightarrow> 'a block \<Rightarrow> nat
     \<Rightarrow> ('a block \<times> 'a block, unit) outcome" where
  "InitializeRawMemory T src source_start count dst dest_start =
     (if is_nothrow_move_constructible_v T \<or> \<not> is_copy_constructible_v T
      then uninitialized_move_n T src source_start count dst dest_start
      else try_catch (uninitialized_copy_n T src source_start count dst dest_start)
             (\<lambda>dst' u. Return (src, dst') ())
             (\<lambda>e dst'. Throw e (src, dst')))"

text \<open>\<^verbatim>\<open>Vector() = default\<close>\<close>

definition Vector_default :: "'a Vector" where
  "Vector_default = \<lparr>data_' = RawMemory_default, size_' = 0\<rparr>"

text \<open>
  \<^verbatim>\<open>explicit Vector(size_t size)\<close> and \<^verbatim>\<open>Vector(const Vector &other)\<close>. When an element
  constructor throws, the member \<^verbatim>\<open>data_\<close> is destroyed and no vector exists.
\<close>

definition Vector_sized :: "'a elem_type \<Rightarrow> nat \<Rightarrow> heap \<Rightarrow> (heap, 'a Vector) outcome" where
  "Vector_sized T size' h =
     try_catch (RawMemory_sized size' h)
       (\<lambda>h1 d.
          try_catch (uninitialized_value_construct_n T (GetAddress d) 0 size')
            (\<lambda>b u. Return h1 \<lparr>data_' = d\<lparr>buffer_' := b\<rparr>, size_' = size'\<rparr>)
            (\<lambda>e b. Throw e (RawMemory_dtor (d\<lparr>buffer_' := b\<rparr>) h1)))
       Throw"

definition Vector_copy :: "'a elem_type \<Rightarrow> 'a Vector \<Rightarrow> heap \<Rightarrow> (heap, 'a Vector) outcome" where
  "Vector_copy T other h =
     try_catch (RawMemory_sized (size_' other) h)
       (\<lambda>h1 d.
          try_catch (uninitialized_copy_n T (Vector_begin other) 0 (size_' other) (GetAddress d) 0)
            (\<lambda>b u. Return h1 \<lparr>data_' = d\<lparr>buffer_' := b\<rparr>, size_' = size_' other\<rparr>)
            (\<lambda>e b. Throw e (RawMemory_dtor (d\<lparr>buffer_' := b\<rparr>) h1)))
       Throw"

text \<open>\<^verbatim>\<open>Vector(Vector &&other) noexcept\<close>: the new vector and \<open>other\<close> afterwards.\<close>

definition Vector_move :: "'a Vector \<Rightarrow> 'a Vector \<times> 'a Vector" where
  "Vector_move other =
     (let (d, other_data) = exchange_RawMemory (data_' other) RawMemory_default
      in (\<lparr>data_' = d, size_' = size_' other\<rparr>, other\<lparr>data_' := other_data, size_' := 0\<rparr>))"

text \<open>\<^verbatim>\<open>~Vector()\<close>, followed by the destructor of the member \<^verbatim>\<open>data_\<close>.\<close>

definition Vector_dtor :: "'a Vector \<Rightarrow> heap \<Rightarrow> heap option" where
  "Vector_dtor v h =
     (case destroy_n (Vector_begin v) 0 (size_' v) of
        None \<Rightarrow> None
      | Some b \<Rightarrow> Some (RawMemory_dtor ((data_' v)\<lparr>buffer_' := b\<rparr>) h))"

text \<open>\<^verbatim>\<open>void Swap(Vector &other) noexcept\<close> on two different vectors.\<close>

definition Swap :: "'a Vector \<Rightarrow> 'a Vector \<Rightarrow> 'a Vector \<times> 'a Vector" where
  "Swap this other =
     (let (d, other_data) = swap_RawMemory (data_' this) (data_' other)
      in (this\<lparr>data_' := d, size_' := size_' other\<rparr>,
          other\<lparr>data_' := other_data, size_' := size_' this\<rparr>))"

text \<open>\<^verbatim>\<open>T &operator[](size_t index) noexcept\<close>\<close>

definition Vector_at :: "'a Vector \<Rightarrow> nat \<Rightarrow> ('a Vector, 'a) outcome" where
  "Vector_at v index =
     (if \<not> index < size_' v then AssertionFailed
      else try_catch (RawMemory_at (data_' v) index) (\<lambda>m x. Return v x) (\<lambda>e m. Terminated))"

text \<open>
  The member functions that change a vector and may allocate work on the vector and the
  free store. \<^verbatim>\<open>void Reserve(size_t new_capacity)\<close>:
\<close>

definition Reserve ::
  "'a elem_type \<Rightarrow> nat \<Rightarrow> 'a Vector \<times> heap \<Rightarrow> ('a Vector \<times> heap, unit) outcome" where
  "Reserve T new_capacity = (\<lambda>(v, h).
     if new_capacity \<le> Capacity v then Return (v, h) ()
     else try_catch (RawMemory_sized new_capacity h)
       (\<lambda>h1 new_data.
          try_catch (InitializeRawMemory T (Vector_begin v) 0 (size_' v) (GetAddress new_data) 0)
            (\<lambda>(b, nb) u.
               case destroy_n b 0 (size_' v) of
                 None \<Rightarrow> Undefined
               | Some b' \<Rightarrow>
                   let (d, nd) = RawMemory_Swap ((data_' v)\<lparr>buffer_' := b'\<rparr>)
                                   (new_data\<lparr>buffer_' := nb\<rparr>)
                   in Return (v\<lparr>data_' := d\<rparr>, RawMemory_dtor nd h1) ())
            (\<lambda>e (b, nb).
               Throw e (set_buffer v b, RawMemory_dtor (new_data\<lparr>buffer_' := nb\<rparr>) h1)))
       (\<lambda>e h1. Throw e (v, h1)))"

text \<open>\<^verbatim>\<open>void Resize(size_t new_size)\<close>\<close>

definition Resize ::
  "'a elem_type \<Rightarrow> nat \<Rightarrow> 'a Vector \<times> heap \<Rightarrow> ('a Vector \<times> heap, unit) outcome" where
  "Resize T new_size = (\<lambda>(v, h).
     try_catch
       (if new_size < size_' v
        then (case destroy_n (Vector_begin v) new_size (size_' v - new_size) of
                None \<Rightarrow> Undefined
              | Some b \<Rightarrow> Return (set_buffer v b, h) ())
        else try_catch (Reserve T new_size (v, h))
               (\<lambda>(v1, h1) u.
                  try_catch
                    (uninitialized_value_construct_n T (Vector_begin v1) (size_' v1)
                       (new_size - size_' v1))
                    (\<lambda>b u. Return (set_buffer v1 b, h1) ())
                    (\<lambda>e b. Throw e (set_buffer v1 b, h1)))
               Throw)
       (\<lambda>(v1, h1) u. Return (v1\<lparr>size_' := new_size\<rparr>, h1) ())
       Throw)"

text \<open>
  \<^verbatim>\<open>void PopBack() noexcept\<close>. The function has no assertion; on an empty vector
  \<^verbatim>\<open>begin() + size_ - 1\<close> is the slot before the block.
\<close>

definition PopBack :: "'a Vector \<Rightarrow> ('a Vector, unit) outcome" where
  "PopBack v =
     (if size_' v = 0 then Undefined
      else case destroy_at (Vector_begin v) (size_' v - 1) of
        None \<Rightarrow> Undefined
      | Some b \<Rightarrow> Return ((set_buffer v b)\<lparr>size_' := size_' v - 1\<rparr>) ())"

text \<open>
  \<^verbatim>\<open>T &EmplaceBack(Args &&... args)\<close>. The argument \<open>ctor\<close> is the outcome of the call
  \<^verbatim>\<open>T(std::forward<Args>(args)...)\<close>: the object it constructs, or \<open>None\<close> when it throws.
  The reference returned is the index of the slot.
\<close>

definition EmplaceBack ::
  "'a elem_type \<Rightarrow> 'a option \<Rightarrow> 'a Vector \<times> heap \<Rightarrow> ('a Vector \<times> heap, nat) outcome" where
  "EmplaceBack T ctor = (\<lambda>(v, h).
     try_catch
       (if size_' v = Capacity v
        then try_catch (RawMemory_sized (if size_' v = 0 then 1 else size_' v * 2) h)
          (\<lambda>h1 new_data.
             if \<not> raw_at (GetAddress new_data) (size_' v) then Undefined
             else case ctor of
               None \<Rightarrow> Throw T_exception (v, RawMemory_dtor new_data h1)
             | Some x \<Rightarrow>
                 try_catch
                   (InitializeRawMemory T (Vector_begin v) 0 (size_' v)
                      ((GetAddress new_data)[size_' v := Some x]) 0)
                   (\<lambda>(b, nb) u.
                      case destroy_n b 0 (size_' v) of
                        None \<Rightarrow> Undefined
                      | Some b' \<Rightarrow>
                          let (d, nd) = RawMemory_Swap ((data_' v)\<lparr>buffer_' := b'\<rparr>)
                                          (new_data\<lparr>buffer_' := nb\<rparr>)
                          in Return (v\<lparr>data_' := d\<rparr>, RawMemory_dtor nd h1) ())
                   (\<lambda>e (b, nb).
                      case destroy_at nb (size_' v) of
                        None \<Rightarrow> Undefined
                      | Some nb' \<Rightarrow>
                          Throw e (set_buffer v b,
                                   RawMemory_dtor (new_data\<lparr>buffer_' := nb'\<rparr>) h1)))
          (\<lambda>e h1. Throw e (v, h1))
        else if \<not> raw_at (Vector_begin v) (size_' v) then Undefined
        else case ctor of
          None \<Rightarrow> Throw T_exception (v, h)
        | Some x \<Rightarrow> Return (set_buffer v ((Vector_begin v)[size_' v := Some x]), h) ())
       (\<lambda>(v1, h1) u. Return (v1\<lparr>size_' := size_' v1 + 1\<rparr>, h1) (size_' v1))
       Throw)"

text \<open>
  \<^verbatim>\<open>void PushBack(const T &value)\<close> and \<^verbatim>\<open>void PushBack(T &&value)\<close>: \<open>EmplaceBack\<close> with
  the copy or the move constructor call. \<open>EmplaceBack\<close> runs the constructor before it
  changes any element of the vector, so a \<^verbatim>\<open>const T &\<close> is read with the value it has
  when the call starts, also when it refers to an element of the vector. For the \<^verbatim>\<open>T &&\<close>
  overload the argument is an object outside the vector, and the state the move leaves it
  in is the caller's.
\<close>

definition PushBack_copy ::
  "'a elem_type \<Rightarrow> 'a \<Rightarrow> 'a Vector \<times> heap \<Rightarrow> ('a Vector \<times> heap, unit) outcome" where
  "PushBack_copy T value' s =
     try_catch (EmplaceBack T (copy_ctor T value') s) (\<lambda>s' r. Return s' ()) Throw"

definition PushBack_move ::
  "'a elem_type \<Rightarrow> 'a \<Rightarrow> 'a Vector \<times> heap \<Rightarrow> ('a Vector \<times> heap, unit) outcome" where
  "PushBack_move T value' s =
     try_catch (EmplaceBack T (snd (move_ctor T value')) s) (\<lambda>s' r. Return s' ()) Throw"

text \<open>
  \<open>Emplace\<close> runs the constructor call \<^verbatim>\<open>T(std::forward<Args>(args)...)\<close> at different
  moments on its different paths, and the arguments are references: they may refer to an
  element of the vector itself, which the call then reads (or moves from) in the state the
  block has at that moment. A reference is to an object outside the vector or to the
  element in a slot of the vector's block.
\<close>

datatype 'a reference = External 'a | Element nat

text \<open>
  The arguments of the constructor call: arguments that do not refer to the vector, given
  by the outcome of the call (the object constructed, \<open>None\<close> when it throws); a
  \<^verbatim>\<open>const T &\<close> to the element in slot \<open>j\<close>, for the copy constructor; a \<^verbatim>\<open>T &&\<close> to the
  element in slot \<open>j\<close>, for the move constructor.
\<close>

datatype 'a ctor_args = Args "'a option" | CopyFrom nat | MoveFrom nat

text \<open>
  The constructor call run while the vector's block is \<open>b\<close>: the block afterwards (a move
  changes the element it moves from) and the object constructed.
\<close>

fun run_ctor :: "'a elem_type \<Rightarrow> 'a ctor_args \<Rightarrow> 'a block \<Rightarrow> ('a block, 'a) outcome" where
  "run_ctor T (Args None) b = Throw T_exception b"
| "run_ctor T (Args (Some x)) b = Return b x"
| "run_ctor T (CopyFrom j) b =
     (if \<not> live_at b j then Undefined
      else case copy_ctor T (the (b ! j)) of
        None \<Rightarrow> Throw T_exception b
      | Some y \<Rightarrow> Return b y)"
| "run_ctor T (MoveFrom j) b =
     (if \<not> live_at b j then Undefined
      else try_catch (call_move_ctor T (the (b ! j)))
        (\<lambda>x' y. Return (b[j := Some x']) y)
        (\<lambda>e x'. Throw e (b[j := Some x'])))"

text \<open>
  \<^verbatim>\<open>iterator Emplace(const_iterator pos, Args &&... args)\<close>. An iterator is its offset from
  \<^verbatim>\<open>begin()\<close>, a signed number since a pointer can lie before the block. The growing path
  runs the constructor call first, on the old block; the path that shifts inside the block
  runs it after the last element has been move-constructed into the slot at \<open>size_\<close> and
  the range has been moved backward.
\<close>

definition Emplace ::
  "'a elem_type \<Rightarrow> int \<Rightarrow> 'a ctor_args \<Rightarrow> 'a Vector \<times> heap
     \<Rightarrow> ('a Vector \<times> heap, int) outcome" where
  "Emplace T pos args = (\<lambda>(v, h).
     if \<not> (0 \<le> pos \<and> pos \<le> int (size_' v)) then AssertionFailed
     else let index = nat pos in
     try_catch
       (if size_' v = Capacity v
        then try_catch (RawMemory_sized (if size_' v = 0 then 1 else size_' v * 2) h)
          (\<lambda>h1 new_data.
             if \<not> raw_at (GetAddress new_data) index then Undefined
             else try_catch (run_ctor T args (Vector_begin v))
               (\<lambda>b0 x.
                 try_catch
                   (InitializeRawMemory T b0 0 index
                      ((GetAddress new_data)[index := Some x]) 0)
                   (\<lambda>(b1, nb1) u.
                      try_catch
                        (InitializeRawMemory T b1 index (size_' v - index) nb1 (index + 1))
                        (\<lambda>(b2, nb2) u.
                           case destroy_n b2 0 (size_' v) of
                             None \<Rightarrow> Undefined
                           | Some b3 \<Rightarrow>
                               let (d, nd) = RawMemory_Swap ((data_' v)\<lparr>buffer_' := b3\<rparr>)
                                               (new_data\<lparr>buffer_' := nb2\<rparr>)
                               in Return (v\<lparr>data_' := d\<rparr>, RawMemory_dtor nd h1) ())
                        (\<lambda>e (b2, nb2).
                           case destroy_n nb2 0 (index + 1) of
                             None \<Rightarrow> Undefined
                           | Some nb3 \<Rightarrow>
                               Throw e (set_buffer v b2,
                                        RawMemory_dtor (new_data\<lparr>buffer_' := nb3\<rparr>) h1)))
                   (\<lambda>e (b1, nb1).
                      case destroy_at nb1 index of
                        None \<Rightarrow> Undefined
                      | Some nb2 \<Rightarrow>
                          Throw e (set_buffer v b1,
                                   RawMemory_dtor (new_data\<lparr>buffer_' := nb2\<rparr>) h1)))
               (\<lambda>e b0. Throw e (set_buffer v b0, RawMemory_dtor new_data h1)))
          (\<lambda>e h1. Throw e (v, h1))
        else if size_' v \<noteq> index
        then (let b = Vector_begin v; n = size_' v in
          if n = 0 \<or> \<not> live_at b (n - 1) \<or> \<not> raw_at b n then Undefined
          else try_catch (call_move_ctor T (the (b ! (n - 1))))
            (\<lambda>x' y.
               try_catch (move_backward T (b[n - 1 := Some x', n := Some y]) index (n - 1) n)
                 (\<lambda>b2 u.
                    try_catch (run_ctor T args b2)
                      (\<lambda>b3 t.
                         try_catch (RawMemory_at ((data_' v)\<lparr>buffer_' := b3\<rparr>) index)
                           (\<lambda>m d.
                              try_catch (call_move_assign T d t)
                                (\<lambda>(d', t') u. Return (set_buffer v (b3[index := Some d']), h) ())
                                (\<lambda>e (d', t'). Throw e (set_buffer v (b3[index := Some d']), h)))
                           (\<lambda>e m. Terminated))
                      (\<lambda>e b3. Throw e (set_buffer v b3, h)))
                 (\<lambda>e b2. Throw e (set_buffer v b2, h)))
            (\<lambda>e x'. Throw e (set_buffer v (b[n - 1 := Some x']), h)))
        else if \<not> raw_at (Vector_begin v) index then Undefined
        else try_catch (run_ctor T args (Vector_begin v))
               (\<lambda>b1 x. Return (set_buffer v (b1[index := Some x]), h) ())
               (\<lambda>e b1. Throw e (set_buffer v b1, h)))
       (\<lambda>(v1, h1) u. Return (v1\<lparr>size_' := size_' v1 + 1\<rparr>, h1) (int index))
       Throw)"

text \<open>
  \<^verbatim>\<open>iterator Insert(const_iterator pos, const T &value)\<close> and the overload for \<^verbatim>\<open>T &&\<close>:
  \<open>Emplace\<close> with the reference as the argument of the copy or move constructor. An
  object outside the vector is not changed by the vector's own work, so its constructor
  call is given by its outcome.
\<close>

definition Insert_copy ::
  "'a elem_type \<Rightarrow> int \<Rightarrow> 'a reference \<Rightarrow> 'a Vector \<times> heap
     \<Rightarrow> ('a Vector \<times> heap, int) outcome" where
  "Insert_copy T pos value' =
     Emplace T pos (case value' of External x \<Rightarrow> Args (copy_ctor T x) | Element j \<Rightarrow> CopyFrom j)"

definition Insert_move ::
  "'a elem_type \<Rightarrow> int \<Rightarrow> 'a reference \<Rightarrow> 'a Vector \<times> heap
     \<Rightarrow> ('a Vector \<times> heap, int) outcome" where
  "Insert_move T pos value' =
     Emplace T pos
       (case value' of External x \<Rightarrow> Args (snd (move_ctor T x)) | Element j \<Rightarrow> MoveFrom j)"

text \<open>
  \<^verbatim>\<open>iterator Erase(const_iterator pos) noexcept(std::is_nothrow_move_assignable_v<T>)\<close>:
  the exception specification, what it does to an exception that reaches it, and the body.
\<close>

definition Erase_noexcept :: "'a elem_type \<Rightarrow> bool" where
  "Erase_noexcept T = is_nothrow_move_assignable_v T"

definition noexcept_if :: "bool \<Rightarrow> ('s, 'r) outcome \<Rightarrow> ('s, 'r) outcome" where
  "noexcept_if c m = (case m of Throw e s \<Rightarrow> if c then Terminated else Throw e s | _ \<Rightarrow> m)"

definition Erase :: "'a elem_type \<Rightarrow> int \<Rightarrow> 'a Vector \<Rightarrow> ('a Vector, int) outcome" where
  "Erase T pos v =
     noexcept_if (Erase_noexcept T)
       (if \<not> (0 \<le> pos \<and> pos < int (size_' v)) then AssertionFailed
        else let index = nat pos in
          try_catch (std_move T (Vector_begin v) (index + 1) (size_' v) index)
            (\<lambda>b u. try_catch (PopBack (set_buffer v b)) (\<lambda>v1 u. Return v1 (int index)) Throw)
            (\<lambda>e b. Throw e (set_buffer v b)))"

section \<open>Assignment between vectors in a store\<close>

text \<open>
  Both assignment operators compare the addresses of their operands, so they work on a
  store of vectors: \<open>this\<close> and \<open>rhs\<close> are addresses. The reference returned is \<open>this\<close>.
\<close>

type_synonym 'a store = "nat \<Rightarrow> 'a Vector"

text \<open>\<^verbatim>\<open>Vector &operator=(const Vector &rhs)\<close>\<close>

definition assign_copy ::
  "'a elem_type \<Rightarrow> nat \<Rightarrow> nat \<Rightarrow> 'a store \<times> heap \<Rightarrow> ('a store \<times> heap, nat) outcome" where
  "assign_copy T this rhs = (\<lambda>(st, h).
     if this \<noteq> rhs
     then (let v = st this; r = st rhs in
       if size_' r > Capacity v
       then try_catch (Vector_copy T r h)
         (\<lambda>h1 rhs_copy.
            let (v1, rhs_copy1) = Swap v rhs_copy
            in case Vector_dtor rhs_copy1 h1 of
                 None \<Rightarrow> Undefined
               | Some h2 \<Rightarrow> Return (st(this := v1), h2) this)
         (\<lambda>e h1. Throw e (st, h1))
       else try_catch
         (if size_' r < size_' v
          then try_catch (copy_n T (Vector_begin r) 0 (size_' r) (Vector_begin v) 0)
            (\<lambda>b u. case destroy_n b (size_' r) (size_' v - size_' r) of
                      None \<Rightarrow> Undefined
                    | Some b' \<Rightarrow> Return b' ())
            Throw
          else try_catch (copy_n T (Vector_begin r) 0 (size_' v) (Vector_begin v) 0)
            (\<lambda>b u. uninitialized_copy_n T (Vector_begin r) (size_' v) (size_' r - size_' v)
                      b (size_' v))
            Throw)
         (\<lambda>b u. Return (st(this := (set_buffer v b)\<lparr>size_' := size_' r\<rparr>), h) this)
         (\<lambda>e b. Throw e (st(this := set_buffer v b), h)))
     else Return (st, h) this)"

text \<open>
  \<^verbatim>\<open>Vector &operator=(Vector &&rhs) noexcept\<close>. It takes no part in the free store: the
  block \<open>this\<close> held before is neither destroyed nor deallocated.
\<close>

definition assign_move :: "nat \<Rightarrow> nat \<Rightarrow> 'a store \<Rightarrow> 'a store" where
  "assign_move this rhs st =
     (if this \<noteq> rhs
      then (let v = st this; r = st rhs;
                (tmp, rhs_data) = exchange_RawMemory (data_' r) RawMemory_default;
                (d, tmp1) = RawMemory_move_assign (data_' v) tmp
            in st(this := v\<lparr>data_' := d, size_' := size_' r\<rparr>,
                  rhs := r\<lparr>data_' := rhs_data, size_' := 0\<rparr>))
      else st)"

text \<open>\<^verbatim>\<open>Vector(Vector &&other)\<close> into a fresh address of the store.\<close>

definition construct_move :: "nat \<Rightarrow> nat \<Rightarrow> 'a store \<Rightarrow> 'a store" where
  "construct_move this other st =
     (let (v, other1) = Vector_move (st other) in st(other := other1, this := v))"

section \<open>What a vector holds\<close>

definition elems :: "'a Vector \<Rightarrow> 'a list" where
  "elems v = map the (take (size_' v) (Vector_begin v))"

text \<open>
  The invariant of the data model: the capacity is the block's slot count, the size does
  not exceed it, the first \<open>size_\<close> slots hold live objects, the others are raw.
\<close>

definition Vector_inv :: "'a Vector \<Rightarrow> bool" where
  "Vector_inv v =
     (capacity_' (data_' v) = length (buffer_' (data_' v)) \<and>
      size_' v \<le> capacity_' (data_' v) \<and>
      list_all (\<lambda>s. s \<noteq> None) (take (size_' v) (buffer_' (data_' v))) \<and>
      list_all (\<lambda>s. s = None) (drop (size_' v) (buffer_' (data_' v))))"


section \<open>Appending a sequence\<close>

text \<open>
  Appending the elements of a list one after the other, each by an \<open>EmplaceBack\<close> whose
  constructor call yields the element.
\<close>

fun append_all ::
  "'a elem_type \<Rightarrow> 'a list \<Rightarrow> 'a Vector \<times> heap \<Rightarrow> ('a Vector \<times> heap, unit) outcome" where
  "append_all T [] s = Return s ()"
| "append_all T (x # xs) s =
     try_catch (EmplaceBack T (Some x) s) (\<lambda>s' r. append_all T xs s') Throw"

text \<open>
  The capacity after \<open>k\<close> appends to an empty vector as the specification describes it:
  an append that finds size equal to capacity makes the capacity \<open>max(1, 2 * capacity)\<close>,
  any other append leaves it.
\<close>

fun doubling_capacity :: "nat \<Rightarrow> nat" where
  "doubling_capacity 0 = 0"
| "doubling_capacity (Suc k) =
     (if k = doubling_capacity k then max 1 (2 * doubling_capacity k) else doubling_capacity k)"

section \<open>Copy assignment in place\<close>

text \<open>
  What the in-place copy assignment leaves in the slots: the targets \<open>ds\<close> after the
  sources \<open>ss\<close> have been copy-assigned onto them pairwise, and the objects
  copy-constructed from \<open>ss\<close>.
\<close>

definition assigned :: "'a elem_type \<Rightarrow> 'a list \<Rightarrow> 'a list \<Rightarrow> 'a list" where
  "assigned T ds ss = map (\<lambda>(d, s). fst (copy_assign T d s)) (zip ds ss)"

definition constructed :: "'a elem_type \<Rightarrow> 'a list \<Rightarrow> 'a list" where
  "constructed T ss = map (\<lambda>s. the (copy_ctor T s)) ss"

text \<open>
  The branch of the copy assignment taken when the source fits the capacity, up to the
  statement \<^verbatim>\<open>size_ = rhs.size_\<close>: what it does to the block of \<open>*this\<close>.
\<close>

definition in_place_copy :: "'a elem_type \<Rightarrow> 'a Vector \<Rightarrow> 'a Vector \<Rightarrow> ('a block, unit) outcome" where
  "in_place_copy T r v =
     (if size_' r < size_' v
      then try_catch (copy_n T (Vector_begin r) 0 (size_' r) (Vector_begin v) 0)
        (\<lambda>b u. case destroy_n b (size_' r) (size_' v - size_' r) of
                  None \<Rightarrow> Undefined
                | Some b' \<Rightarrow> Return b' ())
        Throw
      else try_catch (copy_n T (Vector_begin r) 0 (size_' v) (Vector_begin v) 0)
        (\<lambda>b u. uninitialized_copy_n T (Vector_begin r) (size_' v) (size_' r - size_' v)
                  b (size_' v))
        Throw)"

section \<open>Sample element types, vectors and free stores\<close>

text \<open>
  Element types over the natural numbers, used to run the container on concrete inputs:
  a trivially copyable one; one whose copy constructor throws on the value 13 and whose
  move constructor is not \<^verbatim>\<open>noexcept\<close>; and a move-only one whose move constructor leaves
  0 behind and throws on 13.
\<close>

definition T_int :: "nat elem_type" where
  "T_int = \<lparr>default_ctor = Some 0, copy_ctor = Some, move_ctor = (\<lambda>x. (x, Some x)),
     copy_assign = (\<lambda>d s. (s, True)), move_assign = (\<lambda>d s. ((s, s), True)),
     is_nothrow_move_constructible_v = True, is_copy_constructible_v = True,
     is_nothrow_move_assignable_v = True\<rparr>"

definition T_copy_throws :: "nat elem_type" where
  "T_copy_throws = \<lparr>default_ctor = Some 0,
     copy_ctor = (\<lambda>x. if x = 13 then None else Some x),
     move_ctor = (\<lambda>x. if x = 13 then (x, None) else (0, Some x)),
     copy_assign = (\<lambda>d s. if s = 13 then (d, False) else (s, True)),
     move_assign = (\<lambda>d s. if s = 13 then ((d, s), False) else ((s, 0), True)),
     is_nothrow_move_constructible_v = False, is_copy_constructible_v = True,
     is_nothrow_move_assignable_v = False\<rparr>"

definition T_move_only :: "nat elem_type" where
  "T_move_only = \<lparr>default_ctor = Some 0, copy_ctor = (\<lambda>x. None),
     move_ctor = (\<lambda>x. if x = 13 then (x, None) else (0, Some x)),
     copy_assign = (\<lambda>d s. (d, False)),
     move_assign = (\<lambda>d s. if s = 13 then ((d, s), False) else ((s, 0), True)),
     is_nothrow_move_constructible_v = False, is_copy_constructible_v = False,
     is_nothrow_move_assignable_v = False\<rparr>"

text \<open>The vector holding \<open>xs\<close> in a block of \<open>cap\<close> slots, and a free store that never refuses.\<close>

definition mk_Vector :: "'a list \<Rightarrow> nat \<Rightarrow> 'a Vector" where
  "mk_Vector xs cap =
     \<lparr>data_' = \<lparr>buffer_' = map Some xs @ replicate (cap - length xs) None, capacity_' = cap\<rparr>,
      size_' = length xs\<rparr>"

definition heap_of :: "nat \<Rightarrow> heap" where
  "heap_of n = \<lparr>new_ok = (\<lambda>k. True), blocks = n, lost = 0\<rparr>"

section \<open>Element operations that complete\<close>

text \<open>
  An element operation completes on a value when it does not throw and its target ends
  up equal to its source. Theorems about a call that returns are stated for the element
  operations that call performs.
\<close>

definition copy_ctor_ok :: "'a elem_type \<Rightarrow> 'a \<Rightarrow> bool" where
  "copy_ctor_ok T x = (copy_ctor T x = Some x)"

definition move_ctor_ok :: "'a elem_type \<Rightarrow> 'a \<Rightarrow> bool" where
  "move_ctor_ok T x = (snd (move_ctor T x) = Some x)"

definition move_assign_ok :: "'a elem_type \<Rightarrow> 'a \<Rightarrow> bool" where
  "move_assign_ok T s = (\<forall>d. snd (move_assign T d s) \<and> fst (fst (move_assign T d s)) = s)"

text \<open>The operation \<open>InitializeRawMemory\<close> selects for \<open>T\<close> completes on \<open>x\<close>.\<close>

definition transfer_ok :: "'a elem_type \<Rightarrow> 'a \<Rightarrow> bool" where
  "transfer_ok T x =
     (if is_nothrow_move_constructible_v T \<or> \<not> is_copy_constructible_v T
      then move_ctor_ok T x else copy_ctor_ok T x)"

section \<open>Vectors that satisfy the invariant\<close>

lemma map_Some_the: "list_all (\<lambda>s. s \<noteq> None) ys \<Longrightarrow> map Some (map the ys) = ys"
  by (induction ys) auto

lemma all_None_replicate: "list_all (\<lambda>s. s = None) ys \<Longrightarrow> ys = replicate (length ys) None"
  by (induction ys) auto

lemma mk_Vector_simps [simp]:
  "size_' (mk_Vector xs c) = length xs"
  "Capacity (mk_Vector xs c) = c"
  "Vector_begin (mk_Vector xs c) = map Some xs @ replicate (c - length xs) None"
  "set_buffer (mk_Vector xs c) b = \<lparr>data_' = \<lparr>buffer_' = b, capacity_' = c\<rparr>, size_' = length xs\<rparr>"
  by (simp_all add: mk_Vector_def Capacity_def Vector_begin_def GetAddress_def set_buffer_def)

lemma Vector_inv_mk_Vector: "length xs \<le> c \<Longrightarrow> Vector_inv (mk_Vector xs c)"
  by (simp add: Vector_inv_def mk_Vector_def list_all_iff)

lemma elems_mk_Vector [simp]: "elems (mk_Vector xs c) = xs"
  by (simp add: elems_def comp_def)

text \<open>A vector that satisfies the invariant is determined by its elements and its capacity.\<close>

lemma Vector_inv_as_mk_Vector:
  assumes "Vector_inv v"
  shows "v = mk_Vector (elems v) (Capacity v)" and "length (elems v) = size_' v"
    and "size_' v \<le> Capacity v"
proof -
  let ?b = "buffer_' (data_' v)"
  from assms have cap: "capacity_' (data_' v) = length ?b" and le: "size_' v \<le> length ?b"
    and live: "list_all (\<lambda>s. s \<noteq> None) (take (size_' v) ?b)"
    and raw: "list_all (\<lambda>s. s = None) (drop (size_' v) ?b)"
    by (simp_all add: Vector_inv_def)
  show len: "length (elems v) = size_' v"
    using le by (simp add: elems_def Vector_begin_def GetAddress_def)
  show "size_' v \<le> Capacity v"
    using le cap by (simp add: Capacity_def)
  have "?b = take (size_' v) ?b @ drop (size_' v) ?b" by simp
  also have "take (size_' v) ?b = map Some (elems v)"
    using map_Some_the [OF live] by (simp add: elems_def Vector_begin_def GetAddress_def)
  also have "drop (size_' v) ?b = replicate (Capacity v - length (elems v)) None"
    using all_None_replicate [OF raw] len cap by (simp add: Capacity_def)
  finally have "?b = map Some (elems v) @ replicate (Capacity v - length (elems v)) None" .
  then show "v = mk_Vector (elems v) (Capacity v)"
    using len by (simp add: mk_Vector_def Capacity_def)
qed

section \<open>Slots and loops on blocks written as concatenations\<close>

lemma live_at_append_length [simp]: "live_at (pre @ Some x # post) (length pre)"
  by (simp add: live_at_def)

lemma live_at_append_Suc_length [simp]: "live_at (pre @ a # Some x # post) (Suc (length pre))"
  by (simp add: live_at_def nth_append)

lemma destroy_at_append:
  "i = length pre \<Longrightarrow> destroy_at (pre @ Some x # post) i = Some (pre @ None # post)"
  by (simp add: destroy_at_def)

lemma call_move_assign_ok:
  "move_assign_ok T s \<Longrightarrow> \<exists>m. call_move_assign T d s = Return (s, m) ()"
  by (cases "move_assign T d s") (auto simp: call_move_assign_def move_assign_ok_def
      split: prod.splits bool.splits dest: spec [where x = d])

text \<open>The forward loop closes the gap at \<open>x0\<close> and leaves a moved-from object behind.\<close>

lemma move_n_shift:
  "\<forall>s\<in>set ys. move_assign_ok T s \<Longrightarrow>
     \<exists>m. move_n T (pre @ Some x0 # map Some ys @ post) (Suc (length pre)) (length ys) (length pre)
           = Return (pre @ map Some ys @ Some m # post) ()"
proof (induction ys arbitrary: pre x0)
  case Nil
  then show ?case by simp
next
  case (Cons y ys)
  from Cons.prems have "move_assign_ok T y" by simp
  then obtain m where m: "call_move_assign T x0 y = Return (y, m) ()"
    using call_move_assign_ok [of T y x0] by blast
  from Cons.prems have "\<forall>s\<in>set ys. move_assign_ok T s" by simp
  from Cons.IH [OF this, of "pre @ [Some y]" m]
  obtain m' where
    "move_n T (pre @ Some y # Some m # map Some ys @ post) (Suc (Suc (length pre))) (length ys)
       (Suc (length pre)) = Return (pre @ Some y # map Some ys @ Some m' # post) ()"
    by auto
  with m show ?case
    by (auto simp: nth_append list_update_append)
qed

section \<open>Reserve within the capacity\<close>

text \<open>
  C9. \<open>Reserve(k)\<close> with \<open>k\<close> at most the current capacity returns at once: capacity, size,
  every slot of the block and the free store are what they were.
\<close>

theorem Reserve_within_capacity:
  "new_capacity \<le> Capacity v \<Longrightarrow> Reserve T new_capacity (v, h) = Return (v, h) ()"
  by (simp add: Reserve_def)

theorem Reserve_within_capacity_witness:
  "(2::nat) \<le> Capacity (mk_Vector [1, 2, 3::nat] 4) \<and>
   Reserve T_int 2 (mk_Vector [1, 2, 3] 4, heap_of 1) = Return (mk_Vector [1, 2, 3] 4, heap_of 1) ()"
proof -
  have c: "(2::nat) \<le> Capacity (mk_Vector [1, 2, 3::nat] 4)"
    by (simp add: Capacity_def mk_Vector_def)
  show ?thesis
    using c Reserve_within_capacity [OF c, of T_int "heap_of 1"] by simp
qed

section \<open>Self-assignment\<close>

text \<open>
  C10. Assigning a vector to itself, by copy or by move, is the identity: the address
  check returns before any element is copied, moved or destroyed, so the whole store
  (hence size, capacity and elements of the vector) and the free store are unchanged.
\<close>

theorem self_assignment_identity:
  "assign_copy T a a (st, h) = Return (st, h) a \<and> assign_move a a st = st"
  by (simp add: assign_copy_def assign_move_def)

theorem self_assignment_identity_witness:
  "assign_copy T_copy_throws 0 0 (\<lambda>a. mk_Vector [13, 2] 2, heap_of 1)
     = Return (\<lambda>a. mk_Vector [13, 2] 2, heap_of 1) 0 \<and>
   elems (assign_move 0 0 (\<lambda>a. mk_Vector [13, 2::nat] 2) 0) = [13, 2]"
  using self_assignment_identity [of T_copy_throws 0 "\<lambda>a. mk_Vector [13, 2] 2" "heap_of 1"]
  by (simp add: elems_def mk_Vector_def Vector_begin_def GetAddress_def)

section \<open>Moving a vector\<close>

lemma exchange_RawMemory_default:
  "exchange_RawMemory m RawMemory_default = (m, \<lparr>buffer_' = [], capacity_' = 0\<rparr>)"
  by (simp add: exchange_RawMemory_def RawMemory_move_def RawMemory_move_assign_def
      RawMemory_default_def)

text \<open>
  C8. Move construction and move assignment are plain total functions (they call nothing
  that can throw). After either, the destination is what the source was (same block, so
  the same elements, size and capacity) and the source has size 0 and capacity 0. For the
  assignment, source and destination are two vectors; C10 covers the remaining case.
\<close>

theorem move_steals_source:
  "this \<noteq> rhs \<Longrightarrow>
     assign_move this rhs st this = st rhs \<and>
     size_' (assign_move this rhs st rhs) = 0 \<and>
     Capacity (assign_move this rhs st rhs) = 0 \<and>
     construct_move this rhs st this = st rhs \<and>
     size_' (construct_move this rhs st rhs) = 0 \<and>
     Capacity (construct_move this rhs st rhs) = 0"
  by (simp add: assign_move_def construct_move_def Vector_move_def exchange_RawMemory_default
      RawMemory_move_assign_def Capacity_def Let_def)

theorem move_steals_source_witness:
  "elems (assign_move 0 1 (\<lambda>a. if a = 1 then mk_Vector [1, 2, 3::nat] 4 else mk_Vector [9] 1) 0)
     = [1, 2, 3] \<and>
   Capacity (assign_move 0 1 (\<lambda>a. if a = 1 then mk_Vector [1, 2, 3::nat] 4 else mk_Vector [9] 1) 0)
     = 4 \<and>
   size_' (assign_move 0 1 (\<lambda>a. if a = 1 then mk_Vector [1, 2, 3::nat] 4 else mk_Vector [9] 1) 1)
     = 0 \<and>
   elems (construct_move 0 1 (\<lambda>a. if a = 1 then mk_Vector [1, 2, 3::nat] 4 else mk_Vector [9] 1) 0)
     = [1, 2, 3]"
  using move_steals_source
    [of 0 1 "\<lambda>a. if a = 1 then mk_Vector [1, 2, 3::nat] 4 else mk_Vector [9] 1"]
  by (simp add: elems_def mk_Vector_def Vector_begin_def GetAddress_def Capacity_def)

section \<open>Preconditions and assertions\<close>

lemma Erase_on_empty_asserts: "size_' v = 0 \<Longrightarrow> Erase T pos v = AssertionFailed"
  by (simp add: Erase_def noexcept_if_def)

lemma Vector_at_out_of_range_asserts: "size_' v \<le> i \<Longrightarrow> Vector_at v i = AssertionFailed"
  by (simp add: Vector_at_def)

text \<open>
  C6. \<open>Erase\<close> on an empty vector and indexing out of range stop at their assertions (the
  two lemmas above). \<open>PopBack\<close> has none: on an empty vector it goes on to destroy the
  object in the slot before the block, which is undefined behaviour, not a failed
  assertion.
\<close>

theorem PopBack_on_empty:
  "size_' v = 0 \<Longrightarrow> PopBack v = Undefined \<and> PopBack v \<noteq> AssertionFailed"
  by (simp add: PopBack_def)

theorem PopBack_on_empty_witness:
  "size_' (Vector_default :: nat Vector) = 0 \<and>
   PopBack (Vector_default :: nat Vector) = Undefined \<and>
   Erase T_int 0 Vector_default = AssertionFailed"
proof -
  have z: "size_' (Vector_default :: nat Vector) = 0"
    by (simp add: Vector_default_def)
  show ?thesis
    using z PopBack_on_empty [OF z] Erase_on_empty_asserts [OF z, of T_int 0] by simp
qed

section \<open>Erase\<close>

lemma Erase_mk_Vector:
  assumes i: "i < length xs" and c: "length xs \<le> c"
    and ok: "\<forall>s\<in>set (drop (Suc i) xs). move_assign_ok T s"
  shows "Erase T (int i) (mk_Vector xs c)
           = Return (mk_Vector (take i xs @ drop (Suc i) xs) c) (int i)"
proof -
  define pre where "pre = map Some (take i xs)"
  define ys where "ys = drop (Suc i) xs"
  define post where "post = replicate (c - length xs) (None :: 'a option)"
  have lp: "length pre = i" and ly: "length ys = length xs - Suc i"
    using i by (simp_all add: pre_def ys_def)
  have xs: "xs = take i xs @ xs ! i # ys"
    using i by (simp add: ys_def id_take_nth_drop)
  have b: "map Some xs @ replicate (c - length xs) None = pre @ Some (xs ! i) # map Some ys @ post"
    by (subst xs) (simp add: pre_def post_def)
  from move_n_shift [of ys T pre "xs ! i" post] ok obtain m where
    m: "move_n T (pre @ Some (xs ! i) # map Some ys @ post) (Suc i) (length xs - Suc i) i
          = Return (pre @ map Some ys @ Some m # post) ()"
    by (auto simp: lp ly ys_def)
  have d: "destroy_at (pre @ map Some ys @ Some m # post) (length xs - Suc 0)
             = Some (pre @ map Some ys @ None # post)"
    using destroy_at_append [of "length xs - Suc 0" "pre @ map Some ys" m post] i
    by (simp add: lp ly)
  have r: "pre @ map Some ys @ None # post
             = map Some (take i xs @ ys) @ replicate (c - length (take i xs @ ys)) None"
    using i c by (simp add: pre_def post_def ys_def replicate_Suc [symmetric] Suc_diff_le
        del: replicate_Suc) 
  have mv: "std_move T (map Some xs @ replicate (c - length xs) None) (Suc i) (length xs) i
              = Return (pre @ map Some ys @ Some m # post) ()"
    using i by (simp add: std_move_def b m)
  have pb: "PopBack \<lparr>data_' = \<lparr>buffer_' = pre @ map Some ys @ Some m # post, capacity_' = c\<rparr>,
                     size_' = length xs\<rparr>
              = Return (mk_Vector (take i xs @ ys) c) ()"
    using i c by (simp add: PopBack_def Vector_begin_def GetAddress_def set_buffer_def d r)
      (auto simp: mk_Vector_def ly)
  show ?thesis
    using i by (simp add: Erase_def noexcept_if_def mv pb ys_def [symmetric])
qed


lemma noexcept_if_True_no_Throw: "noexcept_if True m \<noteq> Throw e s"
  by (cases m) (simp_all add: noexcept_if_def)

text \<open>
  C7. On a vector that satisfies the invariant, \<open>Erase\<close> at a valid position \<open>pos\<close>, when
  the move assignments of the later elements complete, returns \<open>pos\<close> and a vector whose
  elements are the old ones without the one at \<open>pos\<close>, the later ones one position
  earlier and in their order; the size is one less, the capacity is unchanged. The
  function is declared \<^verbatim>\<open>noexcept\<close> exactly when \<open>T\<close> is nothrow move assignable, and then
  no exception leaves it.
\<close>

theorem Erase_removes_element:
  assumes inv: "Vector_inv v" and pos: "0 \<le> pos" "pos < int (size_' v)"
    and ok: "\<forall>s\<in>set (drop (Suc (nat pos)) (elems v)). move_assign_ok T s"
  shows "(\<exists>v'. Erase T pos v = Return v' pos \<and>
            elems v' = take (nat pos) (elems v) @ drop (Suc (nat pos)) (elems v) \<and>
            size_' v' = size_' v - 1 \<and> Capacity v' = Capacity v \<and> Vector_inv v') \<and>
         Erase_noexcept T = is_nothrow_move_assignable_v T \<and>
         (Erase_noexcept T \<longrightarrow> (\<forall>e s. Erase T pos v \<noteq> Throw e s))"
proof -
  let ?xs = "elems v" and ?c = "Capacity v" and ?i = "nat pos"
  note mk = Vector_inv_as_mk_Vector [OF inv]
  have i: "?i < length ?xs" using pos mk(2) by simp
  have c: "length ?xs \<le> ?c" using mk(2,3) by simp
  let ?v' = "mk_Vector (take ?i ?xs @ drop (Suc ?i) ?xs) ?c"
  have "Erase T (int ?i) (mk_Vector ?xs ?c) = Return ?v' (int ?i)"
    by (rule Erase_mk_Vector [OF i c ok])
  then have r: "Erase T pos v = Return ?v' pos"
    using mk(1) pos by simp
  have "Vector_inv ?v'"
    using i c by (intro Vector_inv_mk_Vector) simp
  moreover have "size_' ?v' = size_' v - 1"
    using i mk(2) by simp
  moreover have "Erase_noexcept T \<longrightarrow> (\<forall>e s. Erase T pos v \<noteq> Throw e s)"
    by (simp add: Erase_def noexcept_if_True_no_Throw)
  ultimately show ?thesis
    using r by (simp add: Erase_noexcept_def)
qed

theorem Erase_removes_element_witness:
  "(\<exists>v'. Erase T_int 1 (mk_Vector [1, 2, 3, 4] 4) = Return v' 1 \<and> elems v' = [1, 3, 4] \<and>
          size_' v' = 3 \<and> Capacity v' = 4) \<and> Erase_noexcept T_int"
proof -
  let ?v = "mk_Vector [1, 2, 3, 4::nat] 4"
  have inv: "Vector_inv ?v" by (simp add: Vector_inv_mk_Vector)
  have pos: "(0::int) \<le> 1" "(1::int) < int (size_' ?v)" by simp_all
  have ok: "\<forall>s\<in>set (drop (Suc (nat 1)) (elems ?v)). move_assign_ok T_int s"
    by (simp add: move_assign_ok_def T_int_def)
  from Erase_removes_element [OF inv pos ok] show ?thesis
    by (auto simp: T_int_def)
qed

section \<open>Construction and destruction loops\<close>

lemma raw_at_append_length [simp]: "raw_at (pre @ None # post) (length pre)"
  by (simp add: raw_at_def)

lemma destroy_n_append:
  "destroy_n (pre @ map Some xs @ post) (length pre) (length xs)
     = Some (pre @ replicate (length xs) None @ post)"
proof (induction xs arbitrary: pre)
  case Nil
  then show ?case by simp
next
  case (Cons x xs)
  from Cons.IH [of "pre @ [None]"] show ?case
    by (simp add: replicate_app_Cons_same)
qed

lemma uninitialized_copy_n_append:
  "\<forall>x\<in>set xs. copy_ctor_ok T x \<Longrightarrow>
     uninitialized_copy_n T (sp @ map Some xs @ ss) (length sp) (length xs)
        (dp @ replicate (length xs) None @ ds) (length dp)
       = Return (dp @ map Some xs @ ds) ()"
proof (induction xs arbitrary: sp dp)
  case Nil
  then show ?case by simp
next
  case (Cons x xs)
  from Cons.prems have x: "copy_ctor T x = Some x" and xs: "\<forall>x\<in>set xs. copy_ctor_ok T x"
    by (simp_all add: copy_ctor_ok_def)
  from Cons.IH [OF xs, of "sp @ [Some x]" "dp @ [Some x]"] x show ?case
    by simp
qed

lemma call_move_ctor_ok: "move_ctor_ok T x \<Longrightarrow> \<exists>m. call_move_ctor T x = Return m x"
  by (cases "move_ctor T x") (simp add: call_move_ctor_def move_ctor_ok_def)

lemma uninitialized_move_n_append:
  "\<forall>x\<in>set xs. move_ctor_ok T x \<Longrightarrow>
     \<exists>ms. length ms = length xs \<and>
       uninitialized_move_n T (sp @ map Some xs @ ss) (length sp) (length xs)
          (dp @ replicate (length xs) None @ ds) (length dp)
         = Return (sp @ map Some ms @ ss, dp @ map Some xs @ ds) ()"
proof (induction xs arbitrary: sp dp)
  case Nil
  then show ?case by simp
next
  case (Cons x xs)
  from Cons.prems obtain m where m: "call_move_ctor T x = Return m x"
    using call_move_ctor_ok [of T x] by auto
  from Cons.prems have xs: "\<forall>x\<in>set xs. move_ctor_ok T x" by simp
  from Cons.IH [OF xs, of "sp @ [Some m]" "dp @ [Some x]"] obtain ms where
    ms: "length ms = length xs"
      "uninitialized_move_n T (sp @ Some m # map Some xs @ ss) (Suc (length sp)) (length xs)
         (dp @ Some x # replicate (length xs) None @ ds) (Suc (length dp))
        = Return (sp @ Some m # map Some ms @ ss, dp @ Some x # map Some xs @ ds) ()"
    by auto
  show ?case
    by (rule exI [of _ "m # ms"]) (simp add: m ms)
qed

lemma InitializeRawMemory_append:
  "\<forall>x\<in>set xs. transfer_ok T x \<Longrightarrow>
     \<exists>ms. length ms = length xs \<and>
       InitializeRawMemory T (sp @ map Some xs @ ss) (length sp) (length xs)
          (dp @ replicate (length xs) None @ ds) (length dp)
         = Return (sp @ map Some ms @ ss, dp @ map Some xs @ ds) ()"
proof (cases "is_nothrow_move_constructible_v T \<or> \<not> is_copy_constructible_v T")
  case True
  assume "\<forall>x\<in>set xs. transfer_ok T x"
  with True have "\<forall>x\<in>set xs. move_ctor_ok T x" by (simp add: transfer_ok_def)
  from uninitialized_move_n_append [OF this] True show ?thesis
    by (simp add: InitializeRawMemory_def)
next
  case False
  assume "\<forall>x\<in>set xs. transfer_ok T x"
  with False have "\<forall>x\<in>set xs. copy_ctor_ok T x" by (simp add: transfer_ok_def)
  from uninitialized_copy_n_append [OF this] False show ?thesis
    by (intro exI [of _ xs]) (simp add: InitializeRawMemory_def)
qed


section \<open>Appending at the end\<close>

lemma Allocate_ok:
  "n \<noteq> 0 \<Longrightarrow> new_ok h n \<Longrightarrow>
     RawMemory_sized n h
       = Return (h\<lparr>blocks := Suc (blocks h)\<rparr>) \<lparr>buffer_' = replicate n None, capacity_' = n\<rparr>"
  by (simp add: RawMemory_sized_def Allocate_def)


lemma Deallocate_raw:
  "Deallocate (replicate n None) (h\<lparr>blocks := Suc (blocks h)\<rparr>)
     = (if n = 0 then h\<lparr>blocks := Suc (blocks h)\<rparr> else h)"
  by (simp add: Deallocate_def)




lemma try_catch_Return_Throw:
  "try_catch m Return g = Throw e s \<longleftrightarrow> (\<exists>e' s'. m = Throw e' s' \<and> g e' s' = Throw e s)"
  by (cases m) auto


lemma uninitialized_copy_n_Throw:
  "uninitialized_copy_n T src s n dst d = Throw e dst' \<Longrightarrow> dst' = dst"
proof (induction n arbitrary: s dst d dst' e)
  case 0
  then show ?case by simp
next
  case (Suc n)
  show ?case
  proof (cases "copy_ctor T (the (src ! s))")
    case None
    with Suc.prems show ?thesis by (simp split: if_splits)
  next
    case (Some y)
    with Suc.prems obtain e' d2 where
      raw: "raw_at dst d" and
      r: "uninitialized_copy_n T src (Suc s) n (dst[d := Some y]) (Suc d) = Throw e' d2" and
      d: "dst' = d2[d := None]"
      by (auto simp: try_catch_Return_Throw split: if_splits)
    from Suc.IH [OF r] d raw show ?thesis
      by (simp add: raw_at_def list_update_same_conv)
  qed
qed






lemma set_buffer_begin [simp]: "set_buffer v (Vector_begin v) = v"
  by (simp add: set_buffer_def Vector_begin_def GetAddress_def)

lemma set_buffer_fields [simp]:
  "size_' (set_buffer v b) = size_' v" "Capacity (set_buffer v b) = Capacity v"
  "Vector_begin (set_buffer v b) = b"
  by (simp_all add: set_buffer_def Capacity_def Vector_begin_def GetAddress_def)


lemma EmplaceBack_grow:
  assumes g: "size_' v = Capacity v"
    and n': "n' = (if size_' v = 0 then 1 else size_' v * 2)"
    and nok: "new_ok h n'"
  shows "EmplaceBack T (Some x) (v, h) =
      try_catch
        (try_catch
           (InitializeRawMemory T (Vector_begin v) 0 (size_' v)
              ((replicate n' None)[size_' v := Some x]) 0)
           (\<lambda>(b, nb) u.
              case destroy_n b 0 (size_' v) of
                None \<Rightarrow> Undefined
              | Some b' \<Rightarrow>
                  let (d, nd) = RawMemory_Swap ((data_' v)\<lparr>buffer_' := b'\<rparr>)
                                  (\<lparr>buffer_' = replicate n' None, capacity_' = n'\<rparr>
                                     \<lparr>buffer_' := nb\<rparr>)
                  in Return (v\<lparr>data_' := d\<rparr>,
                             RawMemory_dtor nd (h\<lparr>blocks := Suc (blocks h)\<rparr>)) ())
           (\<lambda>e (b, nb).
              case destroy_at nb (size_' v) of
                None \<Rightarrow> Undefined
              | Some nb' \<Rightarrow>
                  Throw e (set_buffer v b,
                           RawMemory_dtor (\<lparr>buffer_' = replicate n' None, capacity_' = n'\<rparr>
                                             \<lparr>buffer_' := nb'\<rparr>)
                             (h\<lparr>blocks := Suc (blocks h)\<rparr>))))
        (\<lambda>(v1, h1) u. Return (v1\<lparr>size_' := size_' v1 + 1\<rparr>, h1) (size_' v1))
        Throw"
proof -
  have "n' \<noteq> 0" "size_' v < n'" by (simp_all add: n')
  with nok show ?thesis
    by (simp add: EmplaceBack_def g [symmetric] Allocate_ok n' [symmetric] GetAddress_def
        raw_at_def)
qed


lemma replicate_update:
  "k < n \<Longrightarrow> (replicate n None)[k := Some x] = replicate k None @ Some x # replicate (n - Suc k) None"
  by (simp add: list_eq_iff_nth_eq nth_list_update nth_append nth_Cons')

lemma InitializeRawMemory_whole:
  assumes "\<forall>y\<in>set xs. transfer_ok T y"
  shows "\<exists>ms. length ms = length xs \<and>
           InitializeRawMemory T (map Some xs) 0 (length xs)
              (replicate (length xs) None @ ds) 0
             = Return (map Some ms, map Some xs @ ds) ()"
  using InitializeRawMemory_append [OF assms, of "[]" "[]" "[]" ds] by simp

lemma destroy_n_whole: "destroy_n (map Some ms) 0 (length ms) = Some (replicate (length ms) None)"
  using destroy_n_append [of "[]" ms "[]"] by simp

lemma EmplaceBack_mk_Vector:
  assumes c: "length xs \<le> c"
    and ok: "\<forall>y\<in>set xs. transfer_ok T y"
    and new: "length xs = c \<longrightarrow> new_ok h (if c = 0 then 1 else c * 2)"
  shows "EmplaceBack T (Some x) (mk_Vector xs c, h)
           = Return (mk_Vector (xs @ [x]) (if length xs = c then (if c = 0 then 1 else c * 2) else c),
                     if c = 0 then h\<lparr>blocks := Suc (blocks h)\<rparr> else h) (length xs)"
proof (cases "length xs = c")
  case False
  with c have lt: "length xs < c" by simp
  then have "replicate (c - length xs) (None :: 'a option)
               = None # replicate (c - Suc (length xs)) None"
    by (cases "c - length xs") (simp_all add: Suc_diff_Suc)
  with lt show ?thesis
    by (simp add: EmplaceBack_def raw_at_def nth_append Vector_begin_def GetAddress_def
        set_buffer_def mk_Vector_def Capacity_def list_update_append)
next
  case True
  define n' where "n' = (if c = 0 then 1 else c * 2 :: nat)"
  have n': "n' \<noteq> 0" "c < n'" by (simp_all add: n'_def)
  from new True have nok: "new_ok h n'" by (simp add: n'_def)
  let ?ds = "Some x # replicate (n' - Suc c) None"
  from InitializeRawMemory_whole [OF ok, of ?ds] True obtain ms where
    ms: "length ms = c" and
    I: "InitializeRawMemory T (map Some xs) 0 c (replicate c None @ ?ds) 0
          = Return (map Some ms, map Some xs @ ?ds) ()"
    by auto
  have d: "destroy_n (map Some ms) 0 c = Some (replicate c None)"
    using destroy_n_whole [of ms] ms by simp
  have g: "size_' (mk_Vector xs c) = Capacity (mk_Vector xs c)"
    using True by simp
  have n'': "n' = (if size_' (mk_Vector xs c) = 0 then 1 else size_' (mk_Vector xs c) * 2)"
    using True by (simp add: n'_def)
  have "EmplaceBack T (Some x) (mk_Vector xs c, h)
          = Return (mk_Vector (xs @ [x]) n', if c = 0 then h\<lparr>blocks := Suc (blocks h)\<rparr> else h) c"
    unfolding EmplaceBack_grow [OF g n'' nok]
    using True n'
    by (simp add: replicate_update I d RawMemory_Swap_def RawMemory_dtor_def Deallocate_raw)
      (simp add: mk_Vector_def)
  with True show ?thesis
    by (simp add: n'_def)
qed






section \<open>The doubling sequence\<close>

lemma doubling_capacity_bounds:
  "k \<noteq> 0 \<Longrightarrow> \<exists>m. doubling_capacity k = 2 ^ m \<and> k \<le> 2 ^ m \<and> 2 ^ m < 2 * k"
proof (induction k)
  case 0
  then show ?case by simp
next
  case (Suc k)
  show ?case
  proof (cases "k = 0")
    case True
    then show ?thesis by (auto intro: exI [of _ 0])
  next
    case False
    with Suc.IH obtain m where m: "doubling_capacity k = 2 ^ m" "k \<le> 2 ^ m" "2 ^ m < 2 * k"
      by auto
    show ?thesis
    proof (cases "k = doubling_capacity k")
      case True
      with m False show ?thesis
        by (intro exI [of _ "Suc m"]) auto
    next
      case False
      with m show ?thesis
        by (intro exI [of _ m]) auto
    qed
  qed
qed

lemma doubling_capacity_ge: "k \<le> doubling_capacity k"
  using doubling_capacity_bounds [of k] by (cases "k = 0") auto

lemma append_all_mk_Vector:
  assumes "\<forall>y\<in>set (ys @ xs). transfer_ok T y"
    and "\<forall>n. 0 < n \<and> n < 2 * (length ys + length xs) \<longrightarrow> new_ok h n"
  shows "\<exists>h'. append_all T xs (mk_Vector ys (doubling_capacity (length ys)), h)
           = Return (mk_Vector (ys @ xs) (doubling_capacity (length ys + length xs)), h') () \<and>
           new_ok h' = new_ok h \<and> lost h' = lost h \<and>
           blocks h' = (if ys = [] \<and> xs \<noteq> [] then Suc (blocks h) else blocks h)"
  using assms
proof (induction xs arbitrary: ys h)
  case Nil
  then show ?case by simp
next
  case (Cons x xs)
  let ?c = "doubling_capacity (length ys)"
  have c: "length ys \<le> ?c" by (rule doubling_capacity_ge)
  have ok: "\<forall>y\<in>set ys. transfer_ok T y" using Cons.prems(1) by simp
  have new: "length ys = ?c \<longrightarrow> new_ok h (if ?c = 0 then 1 else ?c * 2)"
    using Cons.prems(2) by auto
  let ?h1 = "if ?c = 0 then h\<lparr>blocks := Suc (blocks h)\<rparr> else h"
  have step: "EmplaceBack T (Some x) (mk_Vector ys ?c, h)
                = Return (mk_Vector (ys @ [x]) (doubling_capacity (length (ys @ [x]))), ?h1)
                    (length ys)"
  proof -
    have "(if length ys = ?c then (if ?c = 0 then 1 else ?c * 2) else ?c)
            = doubling_capacity (length (ys @ [x]))"
      by (cases ys) (auto simp: max_def)
    with EmplaceBack_mk_Vector [OF c ok new, of x] show ?thesis by simp
  qed
  have "\<forall>y\<in>set ((ys @ [x]) @ xs). transfer_ok T y" using Cons.prems(1) by simp
  moreover have "\<forall>n. 0 < n \<and> n < 2 * (length (ys @ [x]) + length xs) \<longrightarrow> new_ok ?h1 n"
    using Cons.prems(2) by simp
  ultimately obtain h' where
    h': "append_all T xs (mk_Vector (ys @ [x]) (doubling_capacity (length (ys @ [x]))), ?h1)
           = Return (mk_Vector ((ys @ [x]) @ xs)
                       (doubling_capacity (length (ys @ [x]) + length xs)), h') ()"
      "new_ok h' = new_ok ?h1" "lost h' = lost ?h1"
      "blocks h' = (if ys @ [x] = [] \<and> xs \<noteq> [] then Suc (blocks ?h1) else blocks ?h1)"
    using Cons.IH [of "ys @ [x]" ?h1] by blast
  have z: "?c = 0 \<longleftrightarrow> ys = []"
    using c by (cases ys) auto
  from step h' z show ?case
    by (intro exI [of _ h']) auto
qed


lemma Vector_default_mk_Vector: "Vector_default = mk_Vector [] 0"
  by (simp add: Vector_default_def RawMemory_default_def mk_Vector_def)

text \<open>
  C4. Appending the \<open>k \<ge> 1\<close> elements of \<open>xs\<close> to a default-constructed vector, when
  the free store grants the blocks asked for (all of fewer than \<open>2 * k\<close> slots) and the
  transfers of the elements complete, returns a vector of size \<open>k\<close> holding \<open>xs\<close>. Its
  capacity is the one the doubling rule gives after \<open>k\<close> appends, which is the power of
  two \<open>c\<close> with \<open>k \<le> c < 2 * k\<close>: 1, 2, 4, 4, 8, ... The vector then owns one block
  and nothing was lost.
\<close>

theorem appending_doubles_capacity:
  assumes k: "xs \<noteq> []"
    and ok: "\<forall>y\<in>set xs. transfer_ok T y"
    and new: "\<forall>n. 0 < n \<and> n < 2 * length xs \<longrightarrow> new_ok h n"
  shows "\<exists>v' h'. append_all T xs (Vector_default, h) = Return (v', h') () \<and>
           size_' v' = length xs \<and> elems v' = xs \<and> Vector_inv v' \<and>
           Capacity v' = doubling_capacity (length xs) \<and>
           (\<exists>m. Capacity v' = 2 ^ m \<and> length xs \<le> 2 ^ m \<and> 2 ^ m < 2 * length xs) \<and>
           blocks h' = Suc (blocks h) \<and> lost h' = lost h"
proof -
  let ?v' = "mk_Vector xs (doubling_capacity (length xs))"
  from append_all_mk_Vector [of "[]" xs T h] ok new k obtain h' where
    h': "append_all T xs (Vector_default, h) = Return (?v', h') ()"
      "lost h' = lost h" "blocks h' = Suc (blocks h)"
    by (auto simp: Vector_default_mk_Vector)
  have "Vector_inv ?v'"
    by (rule Vector_inv_mk_Vector) (rule doubling_capacity_ge)
  moreover from k have "length xs \<noteq> 0" by simp
  note doubling_capacity_bounds [OF this]
  ultimately show ?thesis
    using h' by (intro exI [of _ ?v'] exI [of _ h']) simp
qed

theorem appending_doubles_capacity_witness:
  "(\<exists>v' h'. append_all T_int [10, 20, 30, 40, 50] (Vector_default, heap_of 0) = Return (v', h') () \<and>
      size_' v' = 5 \<and> elems v' = [10, 20, 30, 40, 50] \<and> Capacity v' = 8 \<and> blocks h' = 1) \<and>
   map doubling_capacity [1, 2, 3, 4, 5] = [1, 2, 4, 4, 8]"
proof -
  have k: "[10, 20, 30, 40, 50::nat] \<noteq> []" by simp
  have ok: "\<forall>y\<in>set [10, 20, 30, 40, 50::nat]. transfer_ok T_int y"
    by (simp add: transfer_ok_def move_ctor_ok_def T_int_def)
  have new: "\<forall>n. 0 < n \<and> n < 2 * length [10, 20, 30, 40, 50::nat] \<longrightarrow> new_ok (heap_of 0) n"
    by (simp add: heap_of_def)
  have d: "map doubling_capacity [1, 2, 3, 4, 5] = [1, 2, 4, 4, 8]"
    by (simp add: eval_nat_numeral)
  from appending_doubles_capacity [OF k ok new] obtain v' h' where
    "append_all T_int [10, 20, 30, 40, 50] (Vector_default, heap_of 0) = Return (v', h') ()"
    "size_' v' = length [10, 20, 30, 40, 50::nat]" "elems v' = [10, 20, 30, 40, 50]"
    "Capacity v' = doubling_capacity (length [10, 20, 30, 40, 50::nat])"
    "blocks h' = Suc (blocks (heap_of 0))"
    by blast
  with d show ?thesis
    by (intro conjI exI [of _ v'] exI [of _ h']) (simp_all add: heap_of_def)
qed

section \<open>Inserting at a position\<close>

lemma move_backward_n_shift:
  "\<forall>s\<in>set ys. move_assign_ok T s \<Longrightarrow>
     \<exists>m'. move_backward_n T (pre @ map Some ys @ Some m # post) (length ys)
             (length pre + length ys) (Suc (length pre + length ys))
           = Return (pre @ Some m' # map Some ys @ post) ()"
proof (induction ys arbitrary: m post rule: rev_induct)
  case Nil
  then show ?case by simp
next
  case (snoc y ys)
  define p where "p = pre @ map Some ys"
  have lp: "length pre + length ys = length p" by (simp add: p_def)
  from snoc.prems have "move_assign_ok T y" by simp
  then obtain m2 where m2: "call_move_assign T m y = Return (y, m2) ()"
    using call_move_assign_ok [of T y m] by blast
  from snoc.prems have "\<forall>s\<in>set ys. move_assign_ok T s" by simp
  from snoc.IH [OF this, of m2 "Some y # post"] obtain m' where
    m': "move_backward_n T (p @ Some m2 # Some y # post) (length ys) (length p) (Suc (length p))
           = Return (pre @ Some m' # map Some ys @ Some y # post) ()"
    by (auto simp: p_def)
  have "move_backward_n T (p @ Some y # Some m # post) (Suc (length ys)) (Suc (length p))
          (Suc (Suc (length p)))
        = move_backward_n T (p @ Some m2 # Some y # post) (length ys) (length p) (Suc (length p))"
    using m2 by (simp add: nth_append list_update_append)
  with m' have "move_backward_n T (p @ Some y # Some m # post) (Suc (length ys)) (Suc (length p))
          (Suc (Suc (length p))) = Return (pre @ Some m' # map Some ys @ Some y # post) ()"
    by simp
  then show ?case
    by (intro exI [of _ m']) (simp add: p_def)
qed


lemma Emplace_at_end_mk_Vector:
  assumes lt: "length xs < c"
    and rc: "run_ctor T args (map Some xs @ replicate (c - length xs) None)
               = Return (map Some xs @ replicate (c - length xs) None) x"
  shows "Emplace T (int (length xs)) args (mk_Vector xs c, h)
           = Return (mk_Vector (xs @ [x]) c, h) (int (length xs))"
proof -
  from lt have r: "replicate (c - length xs) (None :: 'a option)
               = None # replicate (c - Suc (length xs)) None"
    by (cases "c - length xs") (simp_all add: Suc_diff_Suc)
  have raw: "raw_at (map Some xs @ replicate (c - length xs) None) (length xs)"
    using raw_at_append_length [of "map Some xs" "replicate (c - Suc (length xs)) None"] r
    by simp
  have sz: "size_' (mk_Vector xs c) = length xs" "Capacity (mk_Vector xs c) = c"
    "Vector_begin (mk_Vector xs c) = map Some xs @ replicate (c - length xs) None"
    by simp_all
  have "Emplace T (int (length xs)) args (mk_Vector xs c, h)
          = Return (\<lparr>data_' = \<lparr>buffer_' = (map Some xs @ replicate (c - length xs) None)
                                               [length xs := Some x],
                                capacity_' = c\<rparr>, size_' = Suc (length xs)\<rparr>, h) (int (length xs))"
    unfolding Emplace_def
    using lt by (simp add: sz Let_def raw rc del: mk_Vector_simps) (simp add: set_buffer_def mk_Vector_def)
  then show ?thesis
    using r by (simp add: mk_Vector_def list_update_append)
qed

lemma raw_at_append_Suc_length [simp]: "raw_at (pre @ a # None # post) (Suc (length pre))"
  by (simp add: raw_at_def nth_append)

lemma update_Suc_append:
  "(pre @ a # b # post)[Suc (length pre) := b'] = pre @ a # b' # post"
  by (simp add: list_update_append)

lemma Emplace_middle_mk_Vector:
  assumes i: "i < length xs" and lt: "length xs < c"
    and mc: "move_ctor_ok T (last xs)"
    and ma: "\<forall>y\<in>set (drop i (butlast xs)). move_assign_ok T y"
    and mx: "move_assign_ok T x"
    and rc: "\<And>m'. run_ctor T args (map Some (take i xs) @ Some m' # map Some (drop i xs)
                                      @ replicate (c - Suc (length xs)) None)
               = Return (map Some (take i xs) @ Some m' # map Some (drop i xs)
                         @ replicate (c - Suc (length xs)) None) x"
  shows "Emplace T (int i) args (mk_Vector xs c, h)
           = Return (mk_Vector (take i xs @ x # drop i xs) c, h) (int i)"
proof -
  define l where "l = last xs"
  define pre where "pre = map Some (take i xs)"
  define ys where "ys = drop i (butlast xs)"
  define p where "p = pre @ map Some ys"
  define rest where "rest = replicate (c - Suc (length xs)) (None :: 'a option)"
  have lpre: "length pre = i" using i by (simp add: pre_def)
  have lys: "length ys = length xs - Suc i" by (simp add: ys_def)
  have n: "length xs = Suc (length p)" using i by (simp add: p_def lpre lys)
  have ip: "i \<le> length p" by (simp add: p_def lpre)
  have xs: "xs = take i xs @ ys @ [l]"
  proof -
    have "xs = butlast xs @ [last xs]" using i by (cases xs rule: rev_cases) auto
    also have "butlast xs = take i (butlast xs) @ drop i (butlast xs)" by simp
    also have "take i (butlast xs) = take i xs"
      using i by (simp add: take_butlast)
    finally show ?thesis by (simp add: ys_def l_def)
  qed
  have b: "map Some xs @ replicate (c - length xs) None = p @ Some l # None # rest"
  proof -
    have "replicate (c - length xs) (None :: 'a option) = None # rest"
      using lt by (cases "c - length xs") (simp_all add: Suc_diff_Suc rest_def)
    then show ?thesis by (subst xs) (simp add: pre_def p_def)
  qed
  obtain m where m: "call_move_ctor T l = Return m l"
    using call_move_ctor_ok [OF mc] by (auto simp: l_def)
  from move_backward_n_shift [of ys T pre m "Some l # rest"] ma obtain m' where
    "move_backward_n T (pre @ map Some ys @ Some m # Some l # rest) (length ys)
       (length pre + length ys) (Suc (length pre + length ys))
     = Return (pre @ Some m' # map Some ys @ Some l # rest) ()"
    by (auto simp: ys_def [symmetric])
  then have mb: "move_backward T (p @ Some m # Some l # rest) i (length p) (Suc (length p))
                   = Return (pre @ Some m' # map Some ys @ Some l # rest) ()"
    using ip by (simp add: move_backward_def p_def lpre)
  obtain t' where t': "call_move_assign T m' x = Return (x, t') ()"
    using call_move_assign_ok [OF mx] by blast
  have at: "RawMemory_at \<lparr>buffer_' = pre @ Some m' # map Some ys @ Some l # rest, capacity_' = c\<rparr> i
              = Return \<lparr>buffer_' = pre @ Some m' # map Some ys @ Some l # rest, capacity_' = c\<rparr> m'"
    using i lt live_at_append_length [of pre m'] nth_append_length [of pre "Some m'"]
    by (simp add: RawMemory_at_def lpre)
  have dr: "drop i xs = ys @ [l]"
    using i by (subst xs) simp
  have fin: "(pre @ Some m' # map Some ys @ Some l # rest)[i := Some x]
               = map Some (take i xs @ x # drop i xs) @ rest"
    using dr lpre by (simp add: list_update_append pre_def)
  have eq: "pre @ Some m' # map Some ys @ Some l # rest
          = map Some (take i xs) @ Some m' # map Some (drop i xs)
            @ replicate (c - Suc (length xs)) None"
    using dr by (simp add: pre_def rest_def)
  have rc': "run_ctor T args (pre @ Some m' # map Some ys @ Some l # rest)
                 = Return (pre @ Some m' # map Some ys @ Some l # rest) x"
    unfolding eq by (rule rc)
  have sz: "size_' (mk_Vector xs c) = Suc (length p)" "Capacity (mk_Vector xs c) = c"
    "Vector_begin (mk_Vector xs c) = p @ Some l # None # rest"
    using b n by simp_all
  have ne: "Suc (length p) \<noteq> c" "i \<le> Suc (length p)" "Suc (length p) \<noteq> i"
    using lt n ip by simp_all
  have "Emplace T (int i) args (mk_Vector xs c, h)
          = Return (\<lparr>data_' = \<lparr>buffer_' = map Some (take i xs @ x # drop i xs) @ rest,
                                capacity_' = c\<rparr>,
                      size_' = Suc (length xs)\<rparr>, h) (int i)"
    unfolding Emplace_def
    apply (simp add: sz ne Let_def m update_Suc_append mb rc' del: mk_Vector_simps)
    apply (simp add: set_buffer_def mk_Vector_def at t' fin n)
    done
  then show ?thesis
    using i by (simp add: mk_Vector_def rest_def)
qed


lemma Emplace_grow:
  assumes g: "size_' v = Capacity v"
    and n': "n' = (if size_' v = 0 then 1 else size_' v * 2)"
    and nok: "new_ok h n'"
    and i: "i \<le> size_' v"
    and rc: "run_ctor T args (Vector_begin v) = Return (Vector_begin v) x"
  shows "Emplace T (int i) args (v, h) =
      try_catch
        (try_catch
           (InitializeRawMemory T (Vector_begin v) 0 i ((replicate n' None)[i := Some x]) 0)
           (\<lambda>(b1, nb1) u.
              try_catch
                (InitializeRawMemory T b1 i (size_' v - i) nb1 (i + 1))
                (\<lambda>(b2, nb2) u.
                   case destroy_n b2 0 (size_' v) of
                     None \<Rightarrow> Undefined
                   | Some b3 \<Rightarrow>
                       let (d, nd) = RawMemory_Swap ((data_' v)\<lparr>buffer_' := b3\<rparr>)
                                       (\<lparr>buffer_' = replicate n' None, capacity_' = n'\<rparr>
                                          \<lparr>buffer_' := nb2\<rparr>)
                       in Return (v\<lparr>data_' := d\<rparr>,
                                  RawMemory_dtor nd (h\<lparr>blocks := Suc (blocks h)\<rparr>)) ())
                (\<lambda>e (b2, nb2).
                   case destroy_n nb2 0 (i + 1) of
                     None \<Rightarrow> Undefined
                   | Some nb3 \<Rightarrow>
                       Throw e (set_buffer v b2,
                                RawMemory_dtor (\<lparr>buffer_' = replicate n' None, capacity_' = n'\<rparr>
                                                  \<lparr>buffer_' := nb3\<rparr>)
                                  (h\<lparr>blocks := Suc (blocks h)\<rparr>))))
           (\<lambda>e (b1, nb1).
              case destroy_at nb1 i of
                None \<Rightarrow> Undefined
              | Some nb2 \<Rightarrow>
                  Throw e (set_buffer v b1,
                           RawMemory_dtor (\<lparr>buffer_' = replicate n' None, capacity_' = n'\<rparr>
                                             \<lparr>buffer_' := nb2\<rparr>)
                             (h\<lparr>blocks := Suc (blocks h)\<rparr>))))
        (\<lambda>(v1, h1) u. Return (v1\<lparr>size_' := size_' v1 + 1\<rparr>, h1) (int i))
        Throw"
proof -
  have "n' \<noteq> 0" "i < n'" using i by (simp_all add: n')
  with nok i show ?thesis
    by (simp add: Emplace_def g [symmetric] Allocate_ok n' [symmetric] GetAddress_def
        raw_at_def Let_def rc)
qed

lemma Emplace_grow_mk_Vector:
  assumes i: "i \<le> length xs" and full: "length xs = c"
    and ok: "\<forall>y\<in>set xs. transfer_ok T y"
    and new: "new_ok h (if c = 0 then 1 else c * 2)"
    and rc: "run_ctor T args (map Some xs) = Return (map Some xs) x"
  shows "Emplace T (int i) args (mk_Vector xs c, h)
           = Return (mk_Vector (take i xs @ x # drop i xs) (if c = 0 then 1 else c * 2),
                     if c = 0 then h\<lparr>blocks := Suc (blocks h)\<rparr> else h) (int i)"
proof -
  define n' where "n' = (if c = 0 then 1 else c * 2 :: nat)"
  have n': "n' \<noteq> 0" "c < n'" by (simp_all add: n'_def)
  from new have nok: "new_ok h n'" by (simp add: n'_def)
  define hd' where "hd' = take i xs"
  define tl' where "tl' = drop i xs"
  have xs: "xs = hd' @ tl'" by (simp add: hd'_def tl'_def)
  have lh: "length hd' = i" using i by (simp add: hd'_def)
  have lt: "length tl' = c - i" using full by (simp add: tl'_def)
  define rest where "rest = replicate (n' - Suc c) (None :: 'a option)"
  have okh: "\<forall>y\<in>set hd'. transfer_ok T y" and okt: "\<forall>y\<in>set tl'. transfer_ok T y"
    using ok by (auto simp: hd'_def tl'_def dest: in_set_takeD in_set_dropD)
  have fresh: "(replicate n' None)[i := Some x]
                 = replicate i None @ Some x # replicate (c - i) None @ rest"
  proof -
    have "n' - Suc i = (c - i) + (n' - Suc c)" using i full n' by simp
    then have "replicate (n' - Suc i) (None :: 'a option) = replicate (c - i) None @ rest"
      by (simp add: rest_def replicate_add)
    moreover have "i < n'" using i full n' by simp
    ultimately show ?thesis by (simp add: replicate_update)
  qed
  from InitializeRawMemory_append [OF okh, of "[]" "map Some tl'" "[]"
      "Some x # replicate (c - i) None @ rest"] obtain ms1 where
    ms1: "length ms1 = i" and
    I1: "InitializeRawMemory T (map Some hd' @ map Some tl') 0 i
           (replicate i None @ Some x # replicate (c - i) None @ rest) 0
         = Return (map Some ms1 @ map Some tl',
                   map Some hd' @ Some x # replicate (c - i) None @ rest) ()"
    by (auto simp: lh)
  from InitializeRawMemory_append [OF okt, of "map Some ms1" "[]" "map Some hd' @ [Some x]" rest]
  obtain ms2 where
    ms2: "length ms2 = c - i" and
    I2: "InitializeRawMemory T (map Some ms1 @ map Some tl') i (c - i)
           (map Some hd' @ Some x # replicate (c - i) None @ rest) (Suc i)
         = Return (map Some ms1 @ map Some ms2, map Some hd' @ Some x # map Some tl' @ rest) ()"
    by (auto simp: lh lt ms1)
  have d: "destroy_n (map Some ms1 @ map Some ms2) 0 c = Some (replicate c None)"
    using destroy_n_whole [of "ms1 @ ms2"] ms1 ms2 i full by simp
  have g: "size_' (mk_Vector xs c) = Capacity (mk_Vector xs c)"
    using full by simp
  have n'': "n' = (if size_' (mk_Vector xs c) = 0 then 1 else size_' (mk_Vector xs c) * 2)"
    using full by (simp add: n'_def)
  have i': "i \<le> size_' (mk_Vector xs c)" using i by simp
  have sz: "size_' (mk_Vector xs c) = c" "Vector_begin (mk_Vector xs c) = map Some hd' @ map Some tl'"
    using full xs by simp_all
  have rc': "run_ctor T args (Vector_begin (mk_Vector xs c)) = Return (Vector_begin (mk_Vector xs c)) x"
    using rc full by simp
  have "Emplace T (int i) args (mk_Vector xs c, h)
          = Return (\<lparr>data_' = \<lparr>buffer_' = map Some hd' @ Some x # map Some tl' @ rest,
                                capacity_' = n'\<rparr>, size_' = Suc c\<rparr>,
                    if c = 0 then h\<lparr>blocks := Suc (blocks h)\<rparr> else h) (int i)"
    unfolding Emplace_grow [OF g n'' nok i' rc']
    by (simp add: sz fresh I1 I2 d RawMemory_Swap_def RawMemory_dtor_def Deallocate_raw
        del: mk_Vector_simps)
  then show ?thesis
    using full i by (auto simp: mk_Vector_def n'_def hd'_def tl'_def rest_def min_def)
qed


text \<open>
  With arguments that do not refer to the vector, \<open>Emplace\<close> on a vector that satisfies
  the invariant inserts the constructed object at the position, on the growing path and on
  the path that shifts inside the block.
\<close>

lemma Emplace_inserts_at_position:
  assumes inv: "Vector_inv v" and pos: "0 \<le> pos" "pos \<le> int (size_' v)"
    and grow: "size_' v = Capacity v \<longrightarrow>
                 (\<forall>y\<in>set (elems v). transfer_ok T y) \<and>
                 new_ok h (if size_' v = 0 then 1 else size_' v * 2)"
    and shift: "size_' v < Capacity v \<longrightarrow>
                 (\<forall>y\<in>set (elems v). move_ctor_ok T y \<and> move_assign_ok T y) \<and>
                 move_assign_ok T x"
  shows "\<exists>v' h'. Emplace T pos (Args (Some x)) (v, h) = Return (v', h') pos \<and>
            elems v' = take (nat pos) (elems v) @ x # drop (nat pos) (elems v) \<and>
            elems v' ! nat pos = x \<and>
            size_' v' = size_' v + 1 \<and> Vector_inv v' \<and>
            Capacity v' = (if size_' v = Capacity v
                           then (if size_' v = 0 then 1 else size_' v * 2) else Capacity v)"
proof -
  let ?xs = "elems v" and ?c = "Capacity v" and ?i = "nat pos"
  note mk = Vector_inv_as_mk_Vector [OF inv]
  have i: "?i \<le> length ?xs" using pos mk(2) by simp
  have c: "length ?xs \<le> ?c" using mk(2,3) by simp
  let ?ys = "take ?i ?xs @ x # drop ?i ?xs"
  let ?c' = "if length ?xs = ?c then (if ?c = 0 then 1 else ?c * 2) else ?c"
  have rc: "\<And>b. run_ctor T (Args (Some x)) b = Return b x" by simp
  have "\<exists>h'. Emplace T (int ?i) (Args (Some x)) (mk_Vector ?xs ?c, h)
               = Return (mk_Vector ?ys ?c', h') (int ?i)"
  proof (cases "length ?xs = ?c")
    case True
    with grow mk(2) have "\<forall>y\<in>set ?xs. transfer_ok T y"
      and "new_ok h (if ?c = 0 then 1 else ?c * 2)"
      by auto
    from Emplace_grow_mk_Vector [OF i True this rc] True show ?thesis
      by auto
  next
    case False
    with c have lt: "length ?xs < ?c" by simp
    show ?thesis
    proof (cases "?i = length ?xs")
      case True
      with Emplace_at_end_mk_Vector [OF lt rc, of h] False show ?thesis
        by auto
    next
      case False
      with i have i': "?i < length ?xs" by simp
      from shift lt mk(2) have ok: "\<forall>y\<in>set ?xs. move_ctor_ok T y \<and> move_assign_ok T y"
        and mx: "move_assign_ok T x"
        by auto
      from i' have "last ?xs \<in> set ?xs" by (cases "elems v") auto
      with ok have mc: "move_ctor_ok T (last ?xs)" by blast
      have ma: "\<forall>y\<in>set (drop ?i (butlast ?xs)). move_assign_ok T y"
        using ok by (auto dest!: in_set_dropD in_set_butlastD)
      from Emplace_middle_mk_Vector [OF i' lt mc ma mx rc, of h] lt show ?thesis
        by auto
    qed
  qed
  then obtain h' where
    r: "Emplace T pos (Args (Some x)) (v, h) = Return (mk_Vector ?ys ?c', h') pos"
    using mk(1) pos by auto
  have "Vector_inv (mk_Vector ?ys ?c')"
    using i c by (intro Vector_inv_mk_Vector) auto
  moreover have "?ys ! ?i = x"
    using i by (simp add: nth_append)
  ultimately show ?thesis
    using r i mk(2)
    by (intro exI [of _ "mk_Vector ?ys ?c'"] exI [of _ h']) auto
qed

text \<open>
  \<open>Insert\<close> of a reference to an element of the vector itself. On the growing path the
  copy is made first, from the old block, and the element inserted is the one the
  reference named when the call started.
\<close>

lemma Insert_copy_element_growing:
  assumes inv: "Vector_inv v" and pos: "0 \<le> pos" "pos \<le> int (size_' v)" and j: "j < size_' v"
    and full: "size_' v = Capacity v"
    and ok: "\<forall>y\<in>set (elems v). transfer_ok T y \<and> copy_ctor_ok T y"
    and new: "new_ok h (if size_' v = 0 then 1 else size_' v * 2)"
  shows "\<exists>v' h'. Insert_copy T pos (Element j) (v, h) = Return (v', h') pos \<and>
            elems v' = take (nat pos) (elems v) @ elems v ! j # drop (nat pos) (elems v)"
proof -
  let ?xs = "elems v" and ?c = "Capacity v" and ?i = "nat pos"
  note mk = Vector_inv_as_mk_Vector [OF inv]
  have i: "?i \<le> length ?xs" using pos mk(2) by simp
  have jl: "j < length ?xs" using j mk(2) by simp
  have f: "length ?xs = ?c" using full mk(2) by simp
  have t: "\<forall>y\<in>set ?xs. transfer_ok T y" using ok by simp
  have n: "new_ok h (if ?c = 0 then 1 else ?c * 2)" using new by (simp only: full)
  have "copy_ctor T (?xs ! j) = Some (?xs ! j)"
    using ok jl by (simp add: copy_ctor_ok_def)
  then have rc: "run_ctor T (CopyFrom j) (map Some ?xs) = Return (map Some ?xs) (?xs ! j)"
    using jl by (simp add: live_at_def)
  from Emplace_grow_mk_Vector [OF i f t n rc]
  have "Insert_copy T (int ?i) (Element j) (mk_Vector ?xs ?c, h)
          = Return (mk_Vector (take ?i ?xs @ ?xs ! j # drop ?i ?xs) (if ?c = 0 then 1 else ?c * 2),
                    if ?c = 0 then h\<lparr>blocks := Suc (blocks h)\<rparr> else h) (int ?i)"
    by (simp add: Insert_copy_def)
  then show ?thesis
    using mk(1) pos by auto
qed

text \<open>
  C2. The claim does not hold of \<open>Insert\<close> on a vector with spare capacity when the
  argument refers to an element behind the insertion position. The in-place path
  move-constructs the last element into the slot at \<open>size_\<close> and moves the range backward
  before it evaluates \<^verbatim>\<open>T(args)\<close>; by then the slot \<open>j\<close> the reference names holds the
  element that was at \<open>j - 1\<close>. The call returns \<open>pos\<close>, the size is one more and the old
  elements keep their order, but the element placed at \<open>pos\<close> is a copy of the element that
  was at \<open>j - 1\<close>, not of the one passed.
\<close>

theorem Insert_in_place_reads_after_shift:
  assumes inv: "Vector_inv v" and pos: "0 \<le> pos" and j: "nat pos < j" "j < size_' v"
    and room: "size_' v < Capacity v"
    and ok: "\<forall>y\<in>set (elems v). move_ctor_ok T y \<and> move_assign_ok T y \<and> copy_ctor_ok T y"
  shows "\<exists>v'. Insert_copy T pos (Element j) (v, h) = Return (v', h) pos \<and>
           elems v' = take (nat pos) (elems v) @ elems v ! (j - 1) # drop (nat pos) (elems v) \<and>
           elems v' ! nat pos = elems v ! (j - 1) \<and>
           size_' v' = size_' v + 1 \<and> Capacity v' = Capacity v"
proof -
  let ?xs = "elems v" and ?c = "Capacity v" and ?i = "nat pos"
  note mk = Vector_inv_as_mk_Vector [OF inv]
  have i: "?i < length ?xs" and jl: "j < length ?xs" using j mk(2) by simp_all
  have lt: "length ?xs < ?c" using room mk(2) by simp
  let ?x = "?xs ! (j - 1)"
  have xin: "?x \<in> set ?xs" using jl by simp
  from i have "last ?xs \<in> set ?xs" by (cases "elems v") auto
  with ok have mc: "move_ctor_ok T (last ?xs)" by blast
  have ma: "\<forall>y\<in>set (drop ?i (butlast ?xs)). move_assign_ok T y"
    using ok by (auto dest!: in_set_dropD in_set_butlastD)
  have mx: "move_assign_ok T ?x" using ok xin by blast
  have cx: "copy_ctor T ?x = Some ?x" using ok xin by (simp add: copy_ctor_ok_def)
  have rc: "run_ctor T (CopyFrom j) (map Some (take ?i ?xs) @ Some m' # map Some (drop ?i ?xs)
                                      @ replicate (?c - Suc (length ?xs)) None)
              = Return (map Some (take ?i ?xs) @ Some m' # map Some (drop ?i ?xs)
                        @ replicate (?c - Suc (length ?xs)) None) ?x" for m'
  proof -
    let ?b = "map Some (take ?i ?xs) @ Some m' # map Some (drop ?i ?xs)
                @ replicate (?c - Suc (length ?xs)) None"
    have "?b ! j = Some ?x"
      using j(1) jl i by (auto simp: nth_append nth_Cons')
    moreover have "j < length ?b" using jl i by simp
    ultimately show ?thesis
      using cx by (simp add: live_at_def del: nth_append_length)
  qed
  from Emplace_middle_mk_Vector [OF i lt mc ma mx rc, of h]
  have "Insert_copy T (int ?i) (Element j) (mk_Vector ?xs ?c, h)
          = Return (mk_Vector (take ?i ?xs @ ?x # drop ?i ?xs) ?c, h) (int ?i)"
    by (simp add: Insert_copy_def)
  then have r: "Insert_copy T pos (Element j) (v, h)
                  = Return (mk_Vector (take ?i ?xs @ ?x # drop ?i ?xs) ?c, h) pos"
    using mk(1) pos by simp
  have "(take ?i ?xs @ ?x # drop ?i ?xs) ! ?i = ?x"
    using i by (simp add: nth_append)
  with r i mk(2) show ?thesis
    by (intro exI [of _ "mk_Vector (take ?i ?xs @ ?x # drop ?i ?xs) ?c"]) auto
qed

text \<open>
  \<^verbatim>\<open>v.Insert(v.begin(), v[2])\<close> on \<open>[1, 2, 3]\<close>: with capacity 4 the result is \<open>[2, 1, 2, 3]\<close>,
  with capacity 3 (the growing path) it is \<open>[3, 1, 2, 3]\<close>.
\<close>

lemma Insert_copy_element_in_place_example:
  "Insert_copy T_int 0 (Element 2) (mk_Vector [1, 2, 3] 4, heap_of 1)
     = Return (mk_Vector [2, 1, 2, 3] 4, heap_of 1) 0"
  by (simp add: Insert_copy_def Emplace_def Let_def mk_Vector_def Capacity_def Vector_begin_def
      GetAddress_def live_at_def raw_at_def T_int_def call_move_ctor_def call_move_assign_def
      move_backward_def RawMemory_at_def set_buffer_def eval_nat_numeral)

lemma Insert_copy_element_growing_example:
  "\<exists>v' h'. Insert_copy T_int 0 (Element 2) (mk_Vector [1, 2, 3] 3, heap_of 1) = Return (v', h') 0 \<and>
     elems v' = [3, 1, 2, 3]"
  using Insert_copy_element_growing [of "mk_Vector [1, 2, 3] 3" 0 2 T_int "heap_of 1"]
  by (auto simp: Vector_inv_mk_Vector transfer_ok_def move_ctor_ok_def copy_ctor_ok_def
      T_int_def heap_of_def)

lemma Insert_move_element_in_place_example:
  "Insert_move T_move_only 0 (Element 2) (mk_Vector [1, 2, 3] 4, heap_of 1)
     = Return (mk_Vector [2, 1, 0, 3] 4, heap_of 1) 0"
  by (simp add: Insert_move_def Emplace_def Let_def mk_Vector_def Capacity_def Vector_begin_def
      GetAddress_def live_at_def raw_at_def T_move_only_def call_move_ctor_def
      call_move_assign_def move_backward_def RawMemory_at_def set_buffer_def eval_nat_numeral)

theorem Insert_in_place_reads_after_shift_witness:
  "\<exists>v'. Insert_copy T_int 0 (Element 2) (mk_Vector [1, 2, 3] 4, heap_of 1)
          = Return (v', heap_of 1) 0 \<and>
     elems v' = [2, 1, 2, 3] \<and> elems v' ! 0 \<noteq> elems (mk_Vector [1, 2, 3::nat] 4) ! 2 \<and>
     size_' v' = 4"
proof -
  let ?v = "mk_Vector [1, 2, 3::nat] 4"
  have inv: "Vector_inv ?v" by (simp add: Vector_inv_mk_Vector)
  have pos: "(0::int) \<le> 0" by simp
  have j: "nat 0 < (2::nat)" "(2::nat) < size_' ?v" by simp_all
  have room: "size_' ?v < Capacity ?v" by simp
  have ok: "\<forall>y\<in>set (elems ?v). move_ctor_ok T_int y \<and> move_assign_ok T_int y \<and> copy_ctor_ok T_int y"
    by (simp add: move_ctor_ok_def move_assign_ok_def copy_ctor_ok_def T_int_def)
  from Insert_in_place_reads_after_shift [OF inv pos j room ok, of "heap_of 1"] obtain v' where
    "Insert_copy T_int 0 (Element 2) (?v, heap_of 1) = Return (v', heap_of 1) 0"
    "elems v' = take (nat 0) (elems ?v) @ elems ?v ! (2 - 1) # drop (nat 0) (elems ?v)"
    "size_' v' = size_' ?v + 1"
    by blast
  then show ?thesis
    by (intro exI [of _ v']) (simp add: eval_nat_numeral)
qed

section \<open>Copy assignment within the capacity\<close>

lemma copy_n_append:
  "length xs = length ys \<Longrightarrow> \<forall>(d, s)\<in>set (zip xs ys). snd (copy_assign T d s) \<Longrightarrow>
     copy_n T (sp @ map Some ys @ ss) (length sp) (length ys) (dp @ map Some xs @ ds) (length dp)
       = Return (dp @ map Some (assigned T xs ys) @ ds) ()"
proof (induction ys arbitrary: xs sp dp)
  case Nil
  then show ?case by (simp add: assigned_def)
next
  case (Cons y ys)
  then obtain x xs' where xs: "xs = x # xs'" by (cases xs) auto
  obtain z where z: "copy_assign T x y = (z, True)"
    using Cons.prems(2) xs by (cases "copy_assign T x y") auto
  from Cons.prems xs have "length xs' = length ys"
    and "\<forall>(d, s)\<in>set (zip xs' ys). snd (copy_assign T d s)"
    by auto
  from Cons.IH [OF this, of "sp @ [Some y]" "dp @ [Some z]"] z xs show ?case
    by (simp add: assigned_def)
qed

lemma copy_n_Throw:
  "length xs = length ys \<Longrightarrow>
     copy_n T (sp @ map Some ys @ ss) (length sp) (length ys) (dp @ map Some xs @ ds) (length dp)
       = Throw e b' \<Longrightarrow>
     \<exists>j<length ys. b' = dp @ map Some (assigned T (take j xs) (take j ys)
                                @ fst (copy_assign T (xs ! j) (ys ! j)) # drop (Suc j) xs) @ ds"
proof (induction ys arbitrary: xs sp dp)
  case Nil
  then show ?case by simp
next
  case (Cons y ys)
  then obtain x xs' where xs: "xs = x # xs'" by (cases xs) auto
  obtain z ok where z: "copy_assign T x y = (z, ok)" by (cases "copy_assign T x y")
  show ?case
  proof (cases ok)
    case False
    with Cons.prems z xs have "b' = dp @ map Some (z # xs') @ ds"
      by simp
    with z xs show ?thesis
      by (intro exI [of _ 0]) (simp add: assigned_def)
  next
    case True
    with Cons.prems z xs have
      "copy_n T ((sp @ [Some y]) @ map Some ys @ ss) (length (sp @ [Some y])) (length ys)
         ((dp @ [Some z]) @ map Some xs' @ ds) (length (dp @ [Some z])) = Throw e b'"
      by simp
    from Cons.IH [OF _ this] Cons.prems(1) xs obtain j where
      j: "j < length ys"
        "b' = (dp @ [Some z]) @ map Some (assigned T (take j xs') (take j ys)
                 @ fst (copy_assign T (xs' ! j) (ys ! j)) # drop (Suc j) xs') @ ds"
      by auto
    with z xs show ?thesis
      by (intro exI [of _ "Suc j"]) (simp add: assigned_def)
  qed
qed

lemma uninitialized_copy_n_constructed:
  "\<forall>x\<in>set xs. copy_ctor T x \<noteq> None \<Longrightarrow>
     uninitialized_copy_n T (sp @ map Some xs @ ss) (length sp) (length xs)
        (dp @ replicate (length xs) None @ ds) (length dp)
       = Return (dp @ map Some (constructed T xs) @ ds) ()"
proof (induction xs arbitrary: sp dp)
  case Nil
  then show ?case by (simp add: constructed_def)
next
  case (Cons x xs)
  from Cons.prems obtain y where x: "copy_ctor T x = Some y" and xs: "\<forall>x\<in>set xs. copy_ctor T x \<noteq> None"
    by auto
  from Cons.IH [OF xs, of "sp @ [Some x]" "dp @ [Some y]"] x show ?case
    by (simp add: constructed_def)
qed


lemma assign_copy_in_place:
  "this \<noteq> rhs \<Longrightarrow> size_' (st rhs) \<le> Capacity (st this) \<Longrightarrow>
     assign_copy T this rhs (st, h)
       = try_catch (in_place_copy T (st rhs) (st this))
           (\<lambda>b u. Return (st(this := (set_buffer (st this) b)\<lparr>size_' := size_' (st rhs)\<rparr>), h) this)
           (\<lambda>e b. Throw e (st(this := set_buffer (st this) b), h))"
  by (simp add: assign_copy_def in_place_copy_def Let_def)

lemma copy_n_Return:
  "length xs = length ys \<Longrightarrow>
     copy_n T (sp @ map Some ys @ ss) (length sp) (length ys) (dp @ map Some xs @ ds) (length dp)
       = Return b' u \<Longrightarrow>
     b' = dp @ map Some (assigned T xs ys) @ ds"
proof (induction ys arbitrary: xs sp dp)
  case Nil
  then show ?case by (simp add: assigned_def)
next
  case (Cons y ys)
  then obtain x xs' where xs: "xs = x # xs'" by (cases xs) auto
  obtain z ok where z: "copy_assign T x y = (z, ok)" by (cases "copy_assign T x y")
  with Cons.prems xs have ok: ok by (cases ok) auto
  with Cons.prems z xs have
    "copy_n T ((sp @ [Some y]) @ map Some ys @ ss) (length (sp @ [Some y])) (length ys)
       ((dp @ [Some z]) @ map Some xs' @ ds) (length (dp @ [Some z])) = Return b' u"
    by simp
  from Cons.IH [OF _ this] Cons.prems(1) xs z show ?case
    by (simp add: assigned_def)
qed

lemma length_assigned [simp]: "length (assigned T xs ys) = min (length xs) (length ys)"
  by (simp add: assigned_def)

lemma length_constructed [simp]: "length (constructed T ys) = length ys"
  by (simp add: constructed_def)

lemma zip_take_left: "zip (take (length ys) xs) ys = zip xs ys"
proof -
  have "zip (take (length ys) xs) ys = zip (take (length ys) xs) (take (length ys) ys)" by simp
  also have "\<dots> = take (length ys) (zip xs ys)" by (simp only: take_zip)
  also have "\<dots> = zip xs ys" by simp
  finally show ?thesis .
qed

lemma zip_take_right: "zip xs (take (length xs) ys) = zip xs ys"
proof -
  have "zip xs (take (length xs) ys) = zip (take (length xs) xs) (take (length xs) ys)" by simp
  also have "\<dots> = take (length xs) (zip xs ys)" by (simp only: take_zip)
  also have "\<dots> = zip xs ys" by simp
  finally show ?thesis .
qed

lemma in_place_copy_completes:
  assumes n: "length xs \<le> c" and k: "length ys \<le> c" "length ys \<le> cr"
    and asg: "\<forall>(d, s)\<in>set (zip xs ys). snd (copy_assign T d s)"
    and ctr: "\<forall>s\<in>set (drop (length xs) ys). copy_ctor T s \<noteq> None"
  shows "in_place_copy T (mk_Vector ys cr) (mk_Vector xs c)
           = Return (map Some (assigned T xs ys @ constructed T (drop (length xs) ys))
                     @ replicate (c - length ys) None) ()"
proof (cases "length ys < length xs")
  case True
  define rv where "rv = replicate (c - length xs) (None :: 'a option)"
  define rr where "rr = replicate (cr - length ys) (None :: 'a option)"
  have xs: "map Some xs = map Some (take (length ys) xs) @ map Some (drop (length ys) xs)"
    by (simp add: map_append [symmetric] del: map_append)
  have z: "zip (take (length ys) xs) ys = zip xs ys" by (rule zip_take_left)
  have asg': "\<forall>(d, s)\<in>set (zip (take (length ys) xs) ys). snd (copy_assign T d s)"
    using asg z by simp
  have a: "assigned T (take (length ys) xs) ys = assigned T xs ys"
    by (simp add: assigned_def z)
  have l: "length (take (length ys) xs) = length ys" using True by simp
  from copy_n_append [OF l asg', of "[]" rr "[]" "map Some (drop (length ys) xs) @ rv"]
  have c1: "copy_n T (map Some ys @ rr) 0 (length ys) (map Some xs @ rv) 0
              = Return (map Some (assigned T xs ys) @ map Some (drop (length ys) xs) @ rv) ()"
    by (simp add: a xs)
  have la: "length (map Some (assigned T xs ys)) = length ys" using True by simp
  from destroy_n_append [of "map Some (assigned T xs ys)" "drop (length ys) xs" rv]
  have d: "destroy_n (map Some (assigned T xs ys) @ map Some (drop (length ys) xs) @ rv)
             (length ys) (length xs - length ys)
           = Some (map Some (assigned T xs ys) @ replicate (length xs - length ys) None @ rv)"
    using la by simp
  have "replicate (length xs - length ys) None @ rv = replicate (c - length ys) (None :: 'a option)"
    using True n by (simp add: rv_def replicate_add [symmetric])
  with True c1 d show ?thesis
    by (simp add: in_place_copy_def rv_def [symmetric] rr_def [symmetric] constructed_def)
next
  case False
  then have le: "length xs \<le> length ys" by simp
  define rv where "rv = replicate (c - length xs) (None :: 'a option)"
  define rr where "rr = replicate (cr - length ys) (None :: 'a option)"
  have z: "zip xs (take (length xs) ys) = zip xs ys" by (rule zip_take_right)
  have asg': "\<forall>(d, s)\<in>set (zip xs (take (length xs) ys)). snd (copy_assign T d s)"
    using asg z by simp
  have a: "assigned T xs (take (length xs) ys) = assigned T xs ys"
    by (simp add: assigned_def z)
  have l: "length xs = length (take (length xs) ys)" using le by simp
  have ys: "map Some ys = map Some (take (length xs) ys) @ map Some (drop (length xs) ys)"
    by (simp add: map_append [symmetric] del: map_append)
  from copy_n_append [OF l asg', of "[]" "map Some (drop (length xs) ys) @ rr" "[]" rv]
  have c1: "copy_n T (map Some ys @ rr) 0 (length xs) (map Some xs @ rv) 0
              = Return (map Some (assigned T xs ys) @ rv) ()"
    using le by (simp add: a ys)
  have rv: "rv = replicate (length (drop (length xs) ys)) None @ replicate (c - length ys) None"
    using le k by (simp add: rv_def replicate_add [symmetric])
  have la: "length (map Some (assigned T xs ys)) = length xs" using le by simp
  from uninitialized_copy_n_constructed [OF ctr, of "map Some (take (length xs) ys)" rr
      "map Some (assigned T xs ys)" "replicate (c - length ys) None"]
  have c2: "uninitialized_copy_n T (map Some ys @ rr) (length xs) (length ys - length xs)
              (map Some (assigned T xs ys) @ rv) (length xs)
            = Return (map Some (assigned T xs ys) @ map Some (constructed T (drop (length xs) ys))
                      @ replicate (c - length ys) None) ()"
    using le la by (simp add: ys rv)
  from False c1 c2 show ?thesis
    by (simp add: in_place_copy_def rv_def [symmetric] rr_def [symmetric])
qed


lemma drop_take_drop:
  assumes "j \<le> k"
  shows "drop j (take k xs) @ drop k xs = drop j xs"
proof -
  have "drop j xs = drop j (take k xs @ drop k xs)" by simp
  also have "\<dots> = drop j (take k xs) @ drop (j - length (take k xs)) (drop k xs)"
    by (rule drop_append)
  also have "drop (j - length (take k xs)) (drop k xs) = drop k xs"
    using assms by (cases "k \<le> length xs") auto
  finally show ?thesis by simp
qed

lemma in_place_copy_Throw:
  assumes n: "length xs \<le> c" and k: "length ys \<le> c" "length ys \<le> cr"
    and thr: "in_place_copy T (mk_Vector ys cr) (mk_Vector xs c) = Throw e b'"
  shows "\<exists>j es. j \<le> min (length xs) (length ys) \<and>
           b' = map Some es @ replicate (c - length xs) None \<and> length es = length xs \<and>
           take j es = assigned T (take j xs) (take j ys) \<and> drop (Suc j) es = drop (Suc j) xs"
proof -
  define rv where "rv = replicate (c - length xs) (None :: 'a option)"
  define rr where "rr = replicate (cr - length ys) (None :: 'a option)"
  define m where "m = min (length xs) (length ys)"
  let ?C = "copy_n T (map Some ys @ rr) 0 m (map Some xs @ rv) 0"
  have xs: "map Some xs = map Some (take m xs) @ map Some (drop m xs)"
    by (simp add: map_append [symmetric] del: map_append)
  have ys: "map Some ys = map Some (take m ys) @ map Some (drop m ys)"
    by (simp add: map_append [symmetric] del: map_append)
  have l: "length (take m xs) = length (take m ys)" "length (take m ys) = m"
    by (simp_all add: m_def)
  have C: "?C = copy_n T ([] @ map Some (take m ys) @ map Some (drop m ys) @ rr) (length ([] :: 'a block))
                  (length (take m ys))
                  ([] @ map Some (take m xs) @ map Some (drop m xs) @ rv) (length ([] :: 'a block))"
  proof -
    have "map Some ys @ rr = map Some (take m ys) @ map Some (drop m ys) @ rr"
      "map Some xs @ rv = map Some (take m xs) @ map Some (drop m xs) @ rv"
      using xs ys by simp_all
    then show ?thesis using l by simp
  qed
  show ?thesis
  proof (cases ?C)
    case (Throw e1 b1)
    with thr have eb: "e1 = e" "b1 = b'"
      by (auto simp: in_place_copy_def rv_def rr_def m_def min_def split: if_splits)
    from copy_n_Throw [OF l(1) Throw [unfolded C eb]] l(2) obtain j where
      j: "j < m" and
      b': "b' = map Some (assigned T (take j (take m xs)) (take j (take m ys))
                  @ fst (copy_assign T (take m xs ! j) (take m ys ! j)) # drop (Suc j) (take m xs))
                @ map Some (drop m xs) @ rv"
      by auto
    let ?es = "assigned T (take j xs) (take j ys)
                @ fst (copy_assign T (take m xs ! j) (take m ys ! j)) # drop (Suc j) (take m xs)
                @ drop m xs"
    have tj: "take j (take m xs) = take j xs" "take j (take m ys) = take j ys"
      using j by (simp_all add: min_def)
    have la: "length (assigned T (take j xs) (take j ys)) = j"
      using j by (simp add: m_def)
    have dd: "drop (Suc j) (take m xs) @ drop m xs = drop (Suc j) xs"
      using j by (intro drop_take_drop) simp
    have f1: "b' = map Some ?es @ replicate (c - length xs) None"
      using b' j by (simp add: min_def rv_def)
    have f2: "length ?es = length xs"
      using j la by (auto simp: m_def simp del: length_assigned)
    have f3: "take j ?es = assigned T (take j xs) (take j ys)"
      using la by (simp del: length_assigned)
    have f4: "drop (Suc j) ?es = drop (Suc j) xs"
      using la dd by (simp del: length_assigned)
    have f0: "j \<le> min (length xs) (length ys)"
      using j by (simp add: m_def)
    show ?thesis
      apply (rule exI [of _ j])
      apply (rule exI [of _ ?es])
      apply (intro conjI)
          apply (rule f0)
         apply (rule f1)
        apply (rule f2)
       apply (rule f3)
      apply (rule f4)
      done
  next
    case (Return b1 u)
    from copy_n_Return [OF l(1) Return [unfolded C]]
    have b1: "b1 = map Some (assigned T (take m xs) (take m ys)) @ map Some (drop m xs) @ rv"
      by simp
    show ?thesis
    proof (cases "length ys < length xs")
      case True
      with thr Return show ?thesis
        by (simp add: in_place_copy_def rv_def rr_def m_def min_def split: option.splits)
    next
      case False
      then have m: "m = length xs" by (simp add: m_def)
      from False thr Return have
        "uninitialized_copy_n T (map Some ys @ rr) (length xs) (length ys - length xs) b1 (length xs)
           = Throw e b'"
        by (simp add: in_place_copy_def rv_def rr_def m)
      from uninitialized_copy_n_Throw [OF this] b1 m
      have "b' = map Some (assigned T xs (take (length xs) ys)) @ rv" by simp
      with False show ?thesis
        by (intro exI [of _ "length xs"] exI [of _ "assigned T xs (take (length xs) ys)"])
          (simp add: rv_def)
    qed
  qed (use thr in \<open>auto simp: in_place_copy_def rv_def rr_def m_def min_def split: if_splits\<close>)
qed


lemma set_buffer_mk_Vector:
  "length es = k \<Longrightarrow> k \<le> c \<Longrightarrow>
     (set_buffer (mk_Vector xs c) (map Some es @ replicate (c - k) None))\<lparr>size_' := k\<rparr>
       = mk_Vector es c"
  by (simp add: mk_Vector_def set_buffer_def)

lemma set_buffer_mk_Vector_same:
  "length es = length xs \<Longrightarrow>
     set_buffer (mk_Vector xs c) (map Some es @ replicate (c - length xs) None) = mk_Vector es c"
  by (simp add: mk_Vector_def set_buffer_def)

text \<open>
  C5. Copy assignment between two different vectors that satisfy the invariant, when the
  source's size does not exceed the destination's capacity. When the copy assignments
  of the leading \<open>min(size, source size)\<close> pairs and the copy constructions of the source's
  elements beyond the destination's size complete, the call returns, the destination
  holds the assigned elements followed by the constructed ones, has the source's size
  and its old capacity, and the slots beyond the new size are raw. When the call leaves
  by an exception, the free store and every other vector are untouched, the destination
  still has its old size and capacity and satisfies the invariant (it can be destroyed),
  and its contents are overwritten up to some index \<open>j\<close>: the elements before \<open>j\<close> are
  the assigned ones, those after \<open>j\<close> are the old ones.
\<close>

theorem copy_assignment_in_place:
  assumes ne: "this \<noteq> rhs" and iv: "Vector_inv (st this)" and ir: "Vector_inv (st rhs)"
    and fit: "size_' (st rhs) \<le> Capacity (st this)"
  shows "((\<forall>(d, s)\<in>set (zip (elems (st this)) (elems (st rhs))). snd (copy_assign T d s)) \<and>
          (\<forall>s\<in>set (drop (size_' (st this)) (elems (st rhs))). copy_ctor T s \<noteq> None) \<longrightarrow>
          (\<exists>v'. assign_copy T this rhs (st, h) = Return (st(this := v'), h) this \<and>
             elems v' = assigned T (elems (st this)) (elems (st rhs))
                        @ constructed T (drop (size_' (st this)) (elems (st rhs))) \<and>
             size_' v' = size_' (st rhs) \<and> Capacity v' = Capacity (st this) \<and> Vector_inv v')) \<and>
         (\<forall>e st' h'. assign_copy T this rhs (st, h) = Throw e (st', h') \<longrightarrow>
            h' = h \<and>
            (\<exists>v' j. st' = st(this := v') \<and> size_' v' = size_' (st this) \<and>
               Capacity v' = Capacity (st this) \<and> Vector_inv v' \<and>
               j \<le> min (size_' (st this)) (size_' (st rhs)) \<and>
               take j (elems v') = assigned T (take j (elems (st this))) (take j (elems (st rhs))) \<and>
               drop (Suc j) (elems v') = drop (Suc j) (elems (st this))))"
proof -
  let ?xs = "elems (st this)" and ?ys = "elems (st rhs)"
  let ?c = "Capacity (st this)" and ?cr = "Capacity (st rhs)"
  note mv = Vector_inv_as_mk_Vector [OF iv] and mr = Vector_inv_as_mk_Vector [OF ir]
  have n: "length ?xs \<le> ?c" using mv(2,3) by simp
  have k: "length ?ys \<le> ?c" "length ?ys \<le> ?cr" using mr(2,3) fit by simp_all
  note A = assign_copy_in_place [OF ne fit, of T h]
  let ?P = "in_place_copy T (mk_Vector ?ys ?cr) (mk_Vector ?xs ?c)"
  have P: "in_place_copy T (st rhs) (st this) = ?P"
    using mv(1) mr(1) by simp
  have good: "\<exists>v'. assign_copy T this rhs (st, h) = Return (st(this := v'), h) this \<and>
             elems v' = assigned T ?xs ?ys @ constructed T (drop (size_' (st this)) ?ys) \<and>
             size_' v' = size_' (st rhs) \<and> Capacity v' = ?c \<and> Vector_inv v'"
    if asg: "\<forall>(d, s)\<in>set (zip ?xs ?ys). snd (copy_assign T d s)"
      and ctr: "\<forall>s\<in>set (drop (size_' (st this)) ?ys). copy_ctor T s \<noteq> None"
  proof -
    let ?zs = "assigned T ?xs ?ys @ constructed T (drop (length ?xs) ?ys)"
    from ctr mv(2) have ctr': "\<forall>s\<in>set (drop (length ?xs) ?ys). copy_ctor T s \<noteq> None" by simp
    have lz: "length ?zs = length ?ys" by (simp add: min_def)
    from in_place_copy_completes [OF n k asg ctr']
    have "?P = Return (map Some ?zs @ replicate (?c - length ?ys) None) ()" .
    with A P have "assign_copy T this rhs (st, h)
        = Return (st(this := (set_buffer (st this) (map Some ?zs @ replicate (?c - length ?ys) None))
                                \<lparr>size_' := size_' (st rhs)\<rparr>), h) this"
      by simp
    also have "(set_buffer (st this) (map Some ?zs @ replicate (?c - length ?ys) None))
                 \<lparr>size_' := size_' (st rhs)\<rparr> = mk_Vector ?zs ?c"
      using set_buffer_mk_Vector [OF lz k(1), of ?xs] mv(1) mr(2) by simp
    finally have "assign_copy T this rhs (st, h) = Return (st(this := mk_Vector ?zs ?c), h) this" .
    moreover have "Vector_inv (mk_Vector ?zs ?c)"
      using lz k(1) by (intro Vector_inv_mk_Vector) simp
    ultimately show ?thesis
      using lz mr(2) mv(2) by (intro exI [of _ "mk_Vector ?zs ?c"]) simp
  qed
  have bad: "h' = h \<and>
            (\<exists>v' j. st' = st(this := v') \<and> size_' v' = size_' (st this) \<and>
               Capacity v' = ?c \<and> Vector_inv v' \<and>
               j \<le> min (size_' (st this)) (size_' (st rhs)) \<and>
               take j (elems v') = assigned T (take j ?xs) (take j ?ys) \<and>
               drop (Suc j) (elems v') = drop (Suc j) ?xs)"
    if thr: "assign_copy T this rhs (st, h) = Throw e (st', h')" for e st' h'
  proof -
    from thr A obtain b' where b': "?P = Throw e b'"
      and st': "st' = st(this := set_buffer (st this) b')" and h': "h' = h"
      by (cases ?P) (auto simp: P)
    from in_place_copy_Throw [OF n k b'] obtain j es where
      j: "j \<le> min (length ?xs) (length ?ys)"
      and es: "b' = map Some es @ replicate (?c - length ?xs) None" "length es = length ?xs"
        "take j es = assigned T (take j ?xs) (take j ?ys)" "drop (Suc j) es = drop (Suc j) ?xs"
      by blast
    have "set_buffer (st this) b' = mk_Vector es ?c"
      using set_buffer_mk_Vector_same [OF es(2), of ?c] es(1) mv(1) by simp
    with st' have "st' = st(this := mk_Vector es ?c)" by simp
    moreover have "Vector_inv (mk_Vector es ?c)"
      using es(2) n by (intro Vector_inv_mk_Vector) simp
    ultimately show ?thesis
      using h' j es(2,3,4) mv(2) mr(2)
      by (intro conjI exI [of _ "mk_Vector es ?c"] exI [of _ j]) simp_all
  qed
  from good bad show ?thesis by blast
qed


lemma assign_copy_throws_example:
  "assign_copy T_copy_throws 0 1
     (\<lambda>a. if a = 1 then mk_Vector [7, 13] 2 else mk_Vector [1, 2, 3] 4, heap_of 2)
   = Throw T_exception
       ((\<lambda>a. if a = 1 then mk_Vector [7, 13] 2 else mk_Vector [1, 2, 3] 4)
          (0 := mk_Vector [7, 2, 3] 4), heap_of 2)"
  by (simp add: assign_copy_def Let_def mk_Vector_def Capacity_def Vector_begin_def GetAddress_def
      live_at_def T_copy_throws_def set_buffer_def eval_nat_numeral)

theorem copy_assignment_in_place_witness:
  "(\<exists>v'. assign_copy T_int 0 1
            (\<lambda>a. if a = 1 then mk_Vector [7, 8, 9, 10] 4 else mk_Vector [1, 2, 3] 4, heap_of 2)
          = Return ((\<lambda>a. if a = 1 then mk_Vector [7, 8, 9, 10] 4 else mk_Vector [1, 2, 3] 4)
                      (0 := v'), heap_of 2) 0 \<and>
          elems v' = [7, 8, 9, 10] \<and> size_' v' = 4 \<and> Capacity v' = 4) \<and>
   (\<exists>e v' j. assign_copy T_copy_throws 0 1
            (\<lambda>a. if a = 1 then mk_Vector [7, 13] 2 else mk_Vector [1, 2, 3] 4, heap_of 2)
          = Throw e ((\<lambda>a. if a = 1 then mk_Vector [7, 13] 2 else mk_Vector [1, 2, 3] 4)
                       (0 := v'), heap_of 2) \<and>
          size_' v' = 3 \<and> Vector_inv v' \<and> j \<le> 2 \<and> drop (Suc j) (elems v') = drop (Suc j) [1, 2, 3])"
proof -
  let ?st1 = "\<lambda>a::nat. if a = 1 then mk_Vector [7, 8, 9, 10::nat] 4 else mk_Vector [1, 2, 3] 4"
  let ?st2 = "\<lambda>a::nat. if a = 1 then mk_Vector [7, 13::nat] 2 else mk_Vector [1, 2, 3] 4"
  have ne: "(0::nat) \<noteq> 1" by simp
  have i1: "Vector_inv (?st1 0)" "Vector_inv (?st1 1)" "size_' (?st1 1) \<le> Capacity (?st1 0)"
    by (simp_all add: Vector_inv_mk_Vector)
  have i2: "Vector_inv (?st2 0)" "Vector_inv (?st2 1)" "size_' (?st2 1) \<le> Capacity (?st2 0)"
    by (simp_all add: Vector_inv_mk_Vector)
  have ok: "(\<forall>(d, s)\<in>set (zip (elems (?st1 0)) (elems (?st1 1))). snd (copy_assign T_int d s)) \<and>
            (\<forall>s\<in>set (drop (size_' (?st1 0)) (elems (?st1 1))). copy_ctor T_int s \<noteq> None)"
    by (simp add: T_int_def)
  from copy_assignment_in_place [OF ne i1, of T_int "heap_of 2"] ok
  have a: "\<exists>v'. assign_copy T_int 0 1 (?st1, heap_of 2) = Return (?st1(0 := v'), heap_of 2) 0 \<and>
          elems v' = [7, 8, 9, 10] \<and> size_' v' = 4 \<and> Capacity v' = 4"
    by (auto simp: assigned_def constructed_def T_int_def)
  from copy_assignment_in_place [OF ne i2, of T_copy_throws "heap_of 2"]
    assign_copy_throws_example
  obtain v' j where
    "?st2(0 := mk_Vector [7, 2, 3] 4) = ?st2(0 := v')" "size_' v' = size_' (?st2 0)"
    "Vector_inv v'" "j \<le> min (size_' (?st2 0)) (size_' (?st2 1))"
    "drop (Suc j) (elems v') = drop (Suc j) (elems (?st2 0))"
    by blast
  with assign_copy_throws_example
  have b: "\<exists>e v' j. assign_copy T_copy_throws 0 1 (?st2, heap_of 2)
            = Throw e (?st2(0 := v'), heap_of 2) \<and>
          size_' v' = 3 \<and> Vector_inv v' \<and> j \<le> 2 \<and> drop (Suc j) (elems v') = drop (Suc j) [1, 2, 3]"
    by (intro exI [of _ T_exception] exI [of _ v'] exI [of _ j]) simp
  from a b show ?thesis by simp
qed

section \<open>The invariant when an insertion in place throws\<close>

lemma Emplace_middle_ctor_throws:
  assumes i: "i < length xs" and lt: "length xs < c"
    and mc: "move_ctor_ok T (last xs)"
    and ma: "\<forall>y\<in>set (drop i (butlast xs)). move_assign_ok T y"
  shows "\<exists>m'. Emplace T (int i) (Args None) (mk_Vector xs c, h)
           = Throw T_exception
               (\<lparr>data_' = \<lparr>buffer_' = map Some (take i xs) @ Some m' # map Some (drop i xs)
                                    @ replicate (c - Suc (length xs)) None,
                                capacity_' = c\<rparr>,
                  size_' = length xs\<rparr>, h)"
proof -
  define l where "l = last xs"
  define pre where "pre = map Some (take i xs)"
  define ys where "ys = drop i (butlast xs)"
  define p where "p = pre @ map Some ys"
  define rest where "rest = replicate (c - Suc (length xs)) (None :: 'a option)"
  have lpre: "length pre = i" using i by (simp add: pre_def)
  have lys: "length ys = length xs - Suc i" by (simp add: ys_def)
  have n: "length xs = Suc (length p)" using i by (simp add: p_def lpre lys)
  have ip: "i \<le> length p" by (simp add: p_def lpre)
  have xs: "xs = take i xs @ ys @ [l]"
  proof -
    have "xs = butlast xs @ [last xs]" using i by (cases xs rule: rev_cases) auto
    also have "butlast xs = take i (butlast xs) @ drop i (butlast xs)" by simp
    also have "take i (butlast xs) = take i xs"
      using i by (simp add: take_butlast)
    finally show ?thesis by (simp add: ys_def l_def)
  qed
  have b: "map Some xs @ replicate (c - length xs) None = p @ Some l # None # rest"
  proof -
    have "replicate (c - length xs) (None :: 'a option) = None # rest"
      using lt by (cases "c - length xs") (simp_all add: Suc_diff_Suc rest_def)
    then show ?thesis by (subst xs) (simp add: pre_def p_def)
  qed
  obtain m where m: "call_move_ctor T l = Return m l"
    using call_move_ctor_ok [OF mc] by (auto simp: l_def)
  from move_backward_n_shift [of ys T pre m "Some l # rest"] ma obtain m' where
    "move_backward_n T (pre @ map Some ys @ Some m # Some l # rest) (length ys)
       (length pre + length ys) (Suc (length pre + length ys))
     = Return (pre @ Some m' # map Some ys @ Some l # rest) ()"
    by (auto simp: ys_def [symmetric])
  then have mb: "move_backward T (p @ Some m # Some l # rest) i (length p) (Suc (length p))
                   = Return (pre @ Some m' # map Some ys @ Some l # rest) ()"
    using ip by (simp add: move_backward_def p_def lpre)
  have fin: "pre @ Some m' # map Some ys @ Some l # rest
               = map Some (take i xs) @ Some m' # map Some (drop i xs) @ rest"
  proof -
    have "drop i xs = ys @ [l]"
      using i by (subst xs) simp
    then show ?thesis
      by (simp add: pre_def)
  qed
  have sz: "size_' (mk_Vector xs c) = Suc (length p)" "Capacity (mk_Vector xs c) = c"
    "Vector_begin (mk_Vector xs c) = p @ Some l # None # rest"
    using b n by simp_all
  have ne: "Suc (length p) \<noteq> c" "i \<le> Suc (length p)" "Suc (length p) \<noteq> i"
    using lt n ip by simp_all
  have "Emplace T (int i) (Args None) (mk_Vector xs c, h)
          = Throw T_exception
              (\<lparr>data_' = \<lparr>buffer_' = map Some (take i xs) @ Some m' # map Some (drop i xs) @ rest,
                                capacity_' = c\<rparr>,
                 size_' = length xs\<rparr>, h)"
    unfolding Emplace_def
    apply (simp add: sz ne Let_def m update_Suc_append mb del: mk_Vector_simps)
    apply (simp add: set_buffer_def mk_Vector_def fin n)
    done
  then show ?thesis
    by (auto simp: rest_def)
qed


lemma list_all_drop_nth: "list_all P (drop n b) \<Longrightarrow> n < length b \<Longrightarrow> P (b ! n)"
  by (auto simp: list_all_length dest!: spec [of _ 0])

text \<open>
  C3. The invariant does not survive every exit of every operation. \<open>Emplace\<close> before
  the end of a vector with spare capacity first move-constructs the last element into the
  slot at index \<open>size_\<close> and shifts the others; \<^verbatim>\<open>++size_\<close> comes last. When the new
  element's constructor then throws, the call leaves by that exception with the old size
  and a live object in the slot at index \<open>size_\<close>, which should be raw: the invariant is
  broken (and that object is never destroyed). The growing path of the same function
  catches such exceptions and cleans up.
\<close>

theorem Emplace_in_place_ctor_throws:
  assumes inv: "Vector_inv v" and pos: "0 \<le> pos" "pos < int (size_' v)"
    and room: "size_' v < Capacity v"
    and moves: "\<forall>y\<in>set (elems v). move_ctor_ok T y \<and> move_assign_ok T y"
  shows "\<exists>v'. Emplace T pos (Args None) (v, h) = Throw T_exception (v', h) \<and>
           size_' v' = size_' v \<and> Capacity v' = Capacity v \<and>
           live_at (Vector_begin v') (size_' v') \<and> \<not> Vector_inv v'"
proof -
  let ?xs = "elems v" and ?c = "Capacity v" and ?i = "nat pos"
  note mk = Vector_inv_as_mk_Vector [OF inv]
  have i: "?i < length ?xs" using pos mk(2) by simp
  have lt: "length ?xs < ?c" using room mk(2) by simp
  from i have "last ?xs \<in> set ?xs" by (cases "elems v") auto
  with moves have mc: "move_ctor_ok T (last ?xs)" by blast
  have ma: "\<forall>y\<in>set (drop ?i (butlast ?xs)). move_assign_ok T y"
    using moves by (auto dest!: in_set_dropD in_set_butlastD)
  let ?b = "\<lambda>m'. map Some (take ?i ?xs) @ Some m' # map Some (drop ?i ?xs)
                   @ replicate (?c - Suc (length ?xs)) None"
  from Emplace_middle_ctor_throws [OF i lt mc ma, of h] obtain m' where
    "Emplace T (int ?i) (Args None) (mk_Vector ?xs ?c, h)
       = Throw T_exception (\<lparr>data_' = \<lparr>buffer_' = ?b m', capacity_' = ?c\<rparr>,
                             size_' = length ?xs\<rparr>, h)"
    by blast
  then have r: "Emplace T pos (Args None) (v, h)
       = Throw T_exception (\<lparr>data_' = \<lparr>buffer_' = ?b m', capacity_' = ?c\<rparr>,
                             size_' = length ?xs\<rparr>, h)"
    using mk(1) pos by simp
  have ne: "?xs \<noteq> []" using i by auto
  have nth: "?b m' ! length ?xs = Some (last ?xs)"
    using i ne by (auto simp: nth_append nth_Cons' last_conv_nth)
  have live: "live_at (?b m') (length ?xs)"
    using nth i lt by (simp add: live_at_def)
  have "\<not> Vector_inv \<lparr>data_' = \<lparr>buffer_' = ?b m', capacity_' = ?c\<rparr>, size_' = length ?xs\<rparr>"
  proof
    assume "Vector_inv \<lparr>data_' = \<lparr>buffer_' = ?b m', capacity_' = ?c\<rparr>, size_' = length ?xs\<rparr>"
    then have "list_all (\<lambda>s. s = None) (drop (length ?xs) (?b m'))"
      by (simp add: Vector_inv_def)
    moreover have "length ?xs < length (?b m')" using i lt by simp
    ultimately have "?b m' ! length ?xs = None"
      by (rule list_all_drop_nth)
    with nth show False by simp
  qed
  with r live mk(2) show ?thesis
    by (intro exI [of _ "\<lparr>data_' = \<lparr>buffer_' = ?b m', capacity_' = ?c\<rparr>, size_' = length ?xs\<rparr>"])
      (simp add: Capacity_def Vector_begin_def GetAddress_def)
qed


lemma Emplace_in_place_ctor_throws_example:
  "Emplace T_int 0 (Args None) (mk_Vector [1, 2] 4, heap_of 1)
     = Throw T_exception
         (\<lparr>data_' = \<lparr>buffer_' = [Some 1, Some 1, Some 2, None], capacity_' = 4\<rparr>, size_' = 2\<rparr>,
          heap_of 1)"
  by (simp add: Emplace_def Let_def mk_Vector_def Capacity_def Vector_begin_def GetAddress_def
      live_at_def raw_at_def T_int_def call_move_ctor_def call_move_assign_def move_backward_def
      set_buffer_def eval_nat_numeral)

theorem Emplace_in_place_ctor_throws_witness:
  "\<exists>v'. Emplace T_int 0 (Args None) (mk_Vector [1, 2] 4, heap_of 1) = Throw T_exception (v', heap_of 1) \<and>
      size_' v' = 2 \<and> Capacity v' = 4 \<and> live_at (Vector_begin v') 2 \<and> \<not> Vector_inv v'"
proof -
  have inv: "Vector_inv (mk_Vector [1, 2::nat] 4)" by (simp add: Vector_inv_mk_Vector)
  have pos: "(0::int) \<le> 0" "(0::int) < int (size_' (mk_Vector [1, 2::nat] 4))" by simp_all
  have room: "size_' (mk_Vector [1, 2::nat] 4) < Capacity (mk_Vector [1, 2::nat] 4)" by simp
  have moves: "\<forall>y\<in>set (elems (mk_Vector [1, 2::nat] 4)). move_ctor_ok T_int y \<and> move_assign_ok T_int y"
    by (simp add: move_ctor_ok_def move_assign_ok_def T_int_def)
  from Emplace_in_place_ctor_throws [OF inv pos room moves, of "heap_of 1"] obtain v' where
    "Emplace T_int 0 (Args None) (mk_Vector [1, 2] 4, heap_of 1) = Throw T_exception (v', heap_of 1)"
    "size_' v' = size_' (mk_Vector [1, 2::nat] 4)" "Capacity v' = Capacity (mk_Vector [1, 2::nat] 4)"
    "live_at (Vector_begin v') (size_' v')" "\<not> Vector_inv v'"
    by blast
  then show ?thesis
    by (intro exI [of _ v']) (simp add: numeral_2_eq_2)
qed

end
